theory Spec2Isabelle
  imports Complex_Main
begin

section \<open>Go float64 values\<close>

text \<open>
  The step table of the planner is built from joint limits that may be infinite, so a
  float64 is a real number, one of the two infinities, or NaN. The result of an operation
  on two finite values is the exact result rounded to float64: it can be zero where the
  exact result is not (underflow) and an infinity where the exact result is finite
  (overflow). The rounding is a parameter of the operations, and nothing is assumed of it.
  The sign of zero is not modelled.
\<close>

datatype f64 = NaN | NegInf | Fin real | PosInf

type_synonym rounding = "real \<Rightarrow> f64"

text \<open>\<^verbatim>\<open>u - l\<close> on float64.\<close>

fun fsub :: "rounding \<Rightarrow> f64 \<Rightarrow> f64 \<Rightarrow> f64" where
  "fsub rnd NaN _ = NaN"
| "fsub rnd _ NaN = NaN"
| "fsub rnd (Fin a) (Fin b) = rnd (a - b)"
| "fsub rnd (Fin _) PosInf = NegInf"
| "fsub rnd (Fin _) NegInf = PosInf"
| "fsub rnd PosInf PosInf = NaN"
| "fsub rnd PosInf _ = PosInf"
| "fsub rnd NegInf NegInf = NaN"
| "fsub rnd NegInf _ = NegInf"

text \<open>\<^verbatim>\<open>math.Abs\<close>.\<close>

fun fabs :: "f64 \<Rightarrow> f64" where
  "fabs NaN = NaN"
| "fabs NegInf = PosInf"
| "fabs PosInf = PosInf"
| "fabs (Fin a) = Fin \<bar>a\<bar>"

text \<open>The sign of an infinite product; an infinity times zero is NaN.\<close>

definition infTimes :: "bool \<Rightarrow> real \<Rightarrow> f64" where
  "infTimes positive a =
     (if a = 0 then NaN
      else if (0 < a) = positive then PosInf else NegInf)"

text \<open>\<^verbatim>\<open>a * b\<close> on float64.\<close>

fun fmul :: "rounding \<Rightarrow> f64 \<Rightarrow> f64 \<Rightarrow> f64" where
  "fmul rnd NaN _ = NaN"
| "fmul rnd _ NaN = NaN"
| "fmul rnd (Fin a) (Fin b) = rnd (a * b)"
| "fmul rnd (Fin a) PosInf = infTimes True a"
| "fmul rnd (Fin a) NegInf = infTimes False a"
| "fmul rnd PosInf (Fin b) = infTimes True b"
| "fmul rnd NegInf (Fin b) = infTimes False b"
| "fmul rnd PosInf PosInf = PosInf"
| "fmul rnd NegInf NegInf = PosInf"
| "fmul rnd PosInf NegInf = NegInf"
| "fmul rnd NegInf PosInf = NegInf"

section \<open>Frames and the per-DOF step table\<close>

text \<open>\<^verbatim>\<open>referenceframe.Limit\<close> and what \<^verbatim>\<open>getFrameSteps\<close> reads of a frame.\<close>

record limit =
  Min_lim :: f64
  Max_lim :: f64

record frame =
  Name :: string
  DoF :: "limit list"

type_synonym qsteps = "string \<rightharpoonup> f64 list"

text \<open>
  The body of the inner loop of \<^verbatim>\<open>getFrameSteps\<close>: the limits default to
  \<^verbatim>\<open>[-999, 999]\<close> where they are infinite, and the step is the absolute range times
  the percentage.
\<close>

definition dofStep :: "rounding \<Rightarrow> f64 \<Rightarrow> limit \<Rightarrow> f64" where
  "dofStep rnd percentTotalMovement lm =
     (let l = Min_lim lm; u = Max_lim lm;
          l = (if l = NegInf then Fin (- 999) else l);
          u = (if u = PosInf then Fin 999 else u);
          jRange = fabs (fsub rnd u l)
      in fmul rnd jRange percentTotalMovement)"

text \<open>
  \<^verbatim>\<open>getFrameSteps\<close>: one vector per frame of the linearized frame system, stored under
  the frame's name (a later frame of the same name overwrites an earlier one).
\<close>

definition getFrameSteps :: "rounding \<Rightarrow> frame list \<Rightarrow> f64 \<Rightarrow> qsteps" where
  "getFrameSteps rnd frames percentTotalMovement =
     foldl (\<lambda>frameQstep f.
              frameQstep(Name f \<mapsto> map (dofStep rnd percentTotalMovement) (DoF f)))
       Map.empty frames"

text \<open>
  The step of one DOF as the specification words it: the percentage times the width
  (upper minus lower) of the limit range, infinite limits replaced by -999 and 999.
\<close>

definition clampLower :: "f64 \<Rightarrow> f64" where
  "clampLower l = (if l = NegInf then Fin (- 999) else l)"

definition clampUpper :: "f64 \<Rightarrow> f64" where
  "clampUpper u = (if u = PosInf then Fin 999 else u)"

definition specStep :: "rounding \<Rightarrow> f64 \<Rightarrow> limit \<Rightarrow> f64" where
  "specStep rnd percentTotalMovement lm =
     fmul rnd percentTotalMovement
       (fsub rnd (clampUpper (Max_lim lm)) (clampLower (Min_lim lm)))"

section \<open>Nodes, trees and the planner\<close>

text \<open>
  A node is a reference to a \<^verbatim>\<open>basicNode\<close>: nodes are compared by identity, and the
  configuration of a node never changes after its creation, so a node is its identity
  together with its configuration. The corner flag, the one field that is mutated, is kept
  in the world below, by identity. A tree is a Go \<^verbatim>\<open>map[node]node\<close>: a key maps to its
  parent, and the parent of a root is nil.
\<close>

datatype 'q node = Node (ident: nat) (Q: 'q)

type_synonym 'q rrtMap = "'q node \<rightharpoonup> 'q node option"

datatype error =
  ErrNoPlannerOptions
| ErrPlannerFailed
| ErrTimeout
| ErrCtx
| ErrOther string

record plannerOptions =
  PlanIter :: int
  InputIdentDist :: real
  Resolution :: real
  SmoothIter :: int

text \<open>
  The planner \<^verbatim>\<open>mp\<close> with the collaborators it calls, which are not part of this file
  and are parameters here: the distance metric, the constraint handler's segment check
  (whether the segment is valid, and the failing sub-segment if there is one), the
  interpolations, the linearized frame system, the IK solver (whether it failed, and the
  solution it emitted if any), the random number generator, the nearest-neighbour search,
  the sampler and the path extraction. \<open>ctxDone k\<close> tells whether the \<open>k\<close>-th poll of
  \<^verbatim>\<open>ctx.Done()\<close> finds the context cancelled. \<open>rangeMap\<close> is the order in which a
  \<^verbatim>\<open>range\<close> loop visits a tree, \<open>nilInputs\<close> the zero value of a configuration, and
  \<open>round64\<close> the rounding of the machine's float64 arithmetic.
  Distances are real numbers: the metric returns finite floats, which the planner only
  compares.
\<close>

record ('q, 'v, 'r) planner =
  planOpts :: "plannerOptions option"
  qstep :: qsteps
  configurationDistanceFunc :: "'q \<Rightarrow> 'q \<Rightarrow> real"
  CheckSegmentAndStateValidityFS :: "'q \<Rightarrow> 'q \<Rightarrow> real \<Rightarrow> bool \<times> ('q \<times> 'q) option"
  fixedStepInterpolation :: "'q node \<Rightarrow> 'q node \<Rightarrow> qsteps \<Rightarrow> 'q"
  InterpolateFS :: "'q \<Rightarrow> 'q \<Rightarrow> real \<Rightarrow> error + 'q"
  mapToSlice :: "'q \<Rightarrow> 'v option"
  sliceToMap :: "'v \<Rightarrow> 'q option"
  Solve :: "'v \<Rightarrow> int \<Rightarrow> bool \<times> 'v option"
  randInt :: "'r \<Rightarrow> int \<times> 'r"
  randIntn :: "'r \<Rightarrow> int \<Rightarrow> int \<times> 'r"
  randNew :: "int \<Rightarrow> 'r"
  ctxDone :: "nat \<Rightarrow> bool"
  nearestNeighbor :: "'q node \<Rightarrow> 'q rrtMap \<Rightarrow> 'q node option"
  sample :: "'q node \<Rightarrow> int \<Rightarrow> 'r \<Rightarrow> (error + 'q) \<times> 'r"
  extractPath :: "'q rrtMap \<Rightarrow> 'q rrtMap \<Rightarrow> 'q node \<times> 'q node \<Rightarrow> bool \<Rightarrow> 'q node list"
  rangeMap :: "'q rrtMap \<Rightarrow> 'q node list"
  nilInputs :: 'q
  round64 :: rounding

text \<open>
  What the planner mutates outside its trees: the number of polls of the context so far,
  the identity of the next node to be created, the corner flags, and the planner's own
  random number generator \<^verbatim>\<open>mp.randseed\<close>.
\<close>

record 'r world =
  polls :: nat
  nextId :: nat
  corner :: "nat \<Rightarrow> bool"
  randseed :: 'r

text \<open>\<^verbatim>\<open>&basicNode{q: q}\<close>: a new node, its corner flag false.\<close>

definition newBasicNode :: "'q \<Rightarrow> 'r world \<Rightarrow> 'q node \<times> 'r world" where
  "newBasicNode q w =
     (Node (nextId w) q, w\<lparr>nextId := Suc (nextId w), corner := (corner w)(nextId w := False)\<rparr>)"

text \<open>One poll of \<^verbatim>\<open>ctx.Done()\<close>.\<close>

definition tick :: "'r world \<Rightarrow> 'r world" where
  "tick w = w\<lparr>polls := Suc (polls w)\<rparr>"

text \<open>
  A loop body either leaves the function with a result or goes on to the next iteration.
\<close>

datatype ('a, 's) flow = Return 'a 's | Next 's

definition maxNearIter :: nat where
  "maxNearIter = 20"

definition maxExtendIter :: nat where
  "maxExtendIter = 5000"

section \<open>constrainNear\<close>

text \<open>The variables of \<^verbatim>\<open>constrainNear\<close> that change: its two arguments, the random
  number generator it was given and the polls of the context.\<close>

record ('q, 'r) nearState =
  seedInputs :: 'q
  target_n :: 'q
  randseed_n :: 'r
  polls_n :: nat

text \<open>
  One iteration of the loop of \<^verbatim>\<open>constrainNear\<close>. \<open>po\<close> is what \<^verbatim>\<open>mp.planOpts\<close> points
  to.
\<close>

definition constrainNear_body ::
  "('q, 'v, 'r) planner \<Rightarrow> plannerOptions \<Rightarrow> ('q, 'r) nearState
     \<Rightarrow> ('q option, ('q, 'r) nearState) flow" where
  "constrainNear_body mp po s0 =
     (if ctxDone mp (polls_n s0) then Return None (s0\<lparr>polls_n := Suc (polls_n s0)\<rparr>)
      else
        let s = s0\<lparr>polls_n := Suc (polls_n s0)\<rparr> in
        if fst (CheckSegmentAndStateValidityFS mp (seedInputs s) (target_n s) (Resolution po))
        then Return (Some (target_n s)) s
        else
          case mapToSlice mp (target_n s) of
            None \<Rightarrow> Return None s
          | Some linearSeed \<Rightarrow>
              let (r, rs) = randInt mp (randseed_n s);
                  s = s\<lparr>randseed_n := rs\<rparr>;
                  (failed, solved) = Solve mp linearSeed r
              in if failed then Return None s
                 else
                   (case solved of
                     None \<Rightarrow> Return None s
                   | Some sol \<Rightarrow>
                       (case sliceToMap mp sol of
                          None \<Rightarrow> Return None s
                        | Some solutionMap \<Rightarrow>
                            let (ok, failpos) =
                                  CheckSegmentAndStateValidityFS mp (seedInputs s) solutionMap
                                    (Resolution po)
                            in if ok then Return (Some solutionMap) s
                               else
                                 (case failpos of
                                    None \<Rightarrow> Return None s
                                  | Some (failStart, failEnd) \<Rightarrow>
                                      if configurationDistanceFunc mp (target_n s) failEnd
                                           > InputIdentDist po
                                      then Next (s\<lparr>seedInputs := failStart, target_n := failEnd\<rparr>)
                                      else Next s))))"

function constrainNear_loop ::
  "('q, 'v, 'r) planner \<Rightarrow> plannerOptions \<Rightarrow> nat \<Rightarrow> ('q, 'r) nearState
     \<Rightarrow> 'q option \<times> ('q, 'r) nearState" where
  "constrainNear_loop mp po i s =
     (if i < maxNearIter then
        (case constrainNear_body mp po s of
           Return r s' \<Rightarrow> (r, s')
         | Next s' \<Rightarrow> constrainNear_loop mp po (Suc i) s')
      else (None, s))"
  by pat_completeness auto
termination
  by (relation "measure (\<lambda>(mp, po, i, s). maxNearIter - i)") auto

declare constrainNear_loop.simps [simp del]

text \<open>
  \<^verbatim>\<open>constrainNear(ctx, randseed, seedInputs, target)\<close>: the configuration or nil, with
  the generator and the polls it leaves.
\<close>

definition constrainNear ::
  "('q, 'v, 'r) planner \<Rightarrow> plannerOptions \<Rightarrow> 'r \<Rightarrow> 'q \<Rightarrow> 'q \<Rightarrow> nat \<Rightarrow> 'q option \<times> 'r \<times> nat" where
  "constrainNear mp po rs seed tgt p =
     (let (r, s) = constrainNear_loop mp po 0
                     \<lparr>seedInputs = seed, target_n = tgt, randseed_n = rs, polls_n = p\<rparr>
      in (r, randseed_n s, polls_n s))"

section \<open>constrainedExtend\<close>

text \<open>
  The variables of \<^verbatim>\<open>constrainedExtend\<close>: the local copy of the step table and the
  flag of its doubling, the two nodes, the tree, the generator it was given, and the world.
\<close>

record ('q, 'r) extendState =
  qstep_l :: qsteps
  doubled :: bool
  oldNear :: "'q node"
  near :: "'q node"
  rrtMap :: "'q rrtMap"
  randseed_x :: 'r
  wld :: "'r world"

text \<open>The closure \<^verbatim>\<open>deepCopyQstep\<close>; a copy is the same value.\<close>

definition deepCopyQstep :: "('q, 'v, 'r) planner \<Rightarrow> qsteps" where
  "deepCopyQstep mp = qstep mp"

text \<open>The two nested \<^verbatim>\<open>range\<close> loops that double every entry of the local table.\<close>

definition doubleQstep :: "rounding \<Rightarrow> qsteps \<Rightarrow> qsteps" where
  "doubleQstep rnd qs = (\<lambda>f. map_option (map (\<lambda>q. fmul rnd q (Fin 2))) (qs f))"

text \<open>One iteration of the loop of \<^verbatim>\<open>constrainedExtend\<close>; \<open>Return\<close> is a send on
  \<^verbatim>\<open>mchan\<close> followed by the return (also for the \<^verbatim>\<open>break\<close>, which leads to the send
  after the loop).\<close>

definition constrainedExtend_body ::
  "('q, 'v, 'r) planner \<Rightarrow> plannerOptions \<Rightarrow> 'q node \<Rightarrow> ('q, 'r) extendState
     \<Rightarrow> ('q node, ('q, 'r) extendState) flow" where
  "constrainedExtend_body mp po target s0 =
     (if ctxDone mp (polls (wld s0)) then Return (oldNear s0) (s0\<lparr>wld := tick (wld s0)\<rparr>)
      else
        let s = s0\<lparr>wld := tick (wld s0)\<rparr>;
            dist = configurationDistanceFunc mp (Q (near s)) (Q target);
            oldDist = configurationDistanceFunc mp (Q (oldNear s)) (Q target)
        in if dist < InputIdentDist po then Return (near s) s
           else if dist > oldDist then Return (oldNear s) s
           else
             let s = s\<lparr>oldNear := near s\<rparr>;
                 newNear = fixedStepInterpolation mp (near s) target (qstep mp);
                 (res, rs, p) = constrainNear mp po (randseed_x s) (Q (oldNear s)) newNear
                                  (polls (wld s));
                 s = s\<lparr>randseed_x := rs, wld := (wld s)\<lparr>polls := p\<rparr>\<rparr>
             in case res of
                  None \<Rightarrow> Return (oldNear s) s
                | Some newNear \<Rightarrow>
                    let nearDist = configurationDistanceFunc mp (Q (oldNear s)) newNear in
                    if nearDist < (InputIdentDist po) ^ 3 then
                      (if \<not> doubled s
                       then Next (s\<lparr>doubled := True, qstep_l := doubleQstep (round64 mp) (qstep_l s)\<rparr>)
                       else Return (oldNear s) s)
                    else
                      let s = (if doubled s
                               then s\<lparr>qstep_l := deepCopyQstep mp, doubled := False\<rparr>
                               else s);
                          (n, w) = newBasicNode newNear (wld s)
                      in Next (s\<lparr>near := n, rrtMap := (rrtMap s)(n \<mapsto> Some (oldNear s)),
                                 wld := w\<rparr>))"

function constrainedExtend_loop ::
  "('q, 'v, 'r) planner \<Rightarrow> plannerOptions \<Rightarrow> 'q node \<Rightarrow> nat \<Rightarrow> ('q, 'r) extendState
     \<Rightarrow> 'q node \<times> ('q, 'r) extendState" where
  "constrainedExtend_loop mp po target i s =
     (if i < maxExtendIter then
        (case constrainedExtend_body mp po target s of
           Return n s' \<Rightarrow> (n, s')
         | Next s' \<Rightarrow> constrainedExtend_loop mp po target (Suc i) s')
      else (oldNear s, s))"
  by pat_completeness auto
termination
  by (relation "measure (\<lambda>(mp, po, target, i, s). maxExtendIter - i)") auto

declare constrainedExtend_loop.simps [simp del]

text \<open>
  \<^verbatim>\<open>constrainedExtend(ctx, randseed, rrtMap, near, target, mchan)\<close>: the node sent on
  \<^verbatim>\<open>mchan\<close>, and the tree, the generator and the world it leaves.
\<close>

definition constrainedExtend ::
  "('q, 'v, 'r) planner \<Rightarrow> plannerOptions \<Rightarrow> 'r \<Rightarrow> 'q rrtMap \<Rightarrow> 'q node \<Rightarrow> 'q node \<Rightarrow> 'r world
     \<Rightarrow> 'q node \<times> 'q rrtMap \<times> 'r \<times> 'r world" where
  "constrainedExtend mp po rs m nr target w =
     (let (n, s) = constrainedExtend_loop mp po target 0
                     \<lparr>qstep_l = deepCopyQstep mp, doubled = False, oldNear = nr, near = nr,
                      rrtMap = m, randseed_x = rs, wld = w\<rparr>
      in (n, rrtMap s, randseed_x s, wld s))"

section \<open>The planner's outer loop\<close>

text \<open>\<^verbatim>\<open>rrt.maps\<close> and the solution sent on \<^verbatim>\<open>rrt.solutionChan\<close>; a nil field is
  \<open>None\<close>.\<close>

record 'q rrtMaps =
  startMap :: "'q rrtMap"
  goalMap :: "'q rrtMap"
  optNode :: "'q node"

record 'q rrtSolution =
  steps :: "'q node list option"
  err :: "error option"
  maps :: "'q rrtMaps option"

text \<open>
  The variables of \<^verbatim>\<open>rrtBackgroundRunner\<close>. \<^verbatim>\<open>map1\<close> and \<^verbatim>\<open>map2\<close> are references to
  the two trees of \<^verbatim>\<open>rrt.maps\<close>, exchanged at the end of every iteration: \<open>swapped\<close>
  tells that \<^verbatim>\<open>map1\<close> is the goal tree.
\<close>

record ('q, 'r) runState =
  rmaps :: "'q rrtMaps"
  swapped :: bool
  target_r :: "'q node"
  wld_r :: "'r world"

definition map1_r :: "('q, 'r) runState \<Rightarrow> 'q rrtMap" where
  "map1_r s = (if swapped s then goalMap (rmaps s) else startMap (rmaps s))"

definition map2_r :: "('q, 'r) runState \<Rightarrow> 'q rrtMap" where
  "map2_r s = (if swapped s then startMap (rmaps s) else goalMap (rmaps s))"

definition setMaps :: "'q rrtMap \<Rightarrow> 'q rrtMap \<Rightarrow> ('q, 'r) runState \<Rightarrow> ('q, 'r) runState" where
  "setMaps m1 m2 s =
     (if swapped s then s\<lparr>rmaps := (rmaps s)\<lparr>goalMap := m1, startMap := m2\<rparr>\<rparr>
      else s\<lparr>rmaps := (rmaps s)\<lparr>startMap := m1, goalMap := m2\<rparr>\<rparr>)"

text \<open>
  Modelled from the spec: \<^verbatim>\<open>newConfigurationNode\<close>, which is not part of this file. A node
  is created with its configuration and the corner flag false.
\<close>

definition newConfigurationNode :: "'q \<Rightarrow> 'r world \<Rightarrow> 'q node \<times> 'r world" where
  "newConfigurationNode q w = newBasicNode q w"

text \<open>\<^verbatim>\<open>SetCorner\<close> on a node.\<close>

definition SetCorner :: "'q node \<Rightarrow> bool \<Rightarrow> 'r world \<Rightarrow> 'r world" where
  "SetCorner n b w = w\<lparr>corner := (corner w)(ident n := b)\<rparr>"

text \<open>
  What the closure \<^verbatim>\<open>tryExtend\<close> gives: the context's error, the two reached nodes, or
  nothing at all when a nearest neighbour is nil: the extension then panics in its own
  goroutine and the runner waits on the channel for ever.
\<close>

datatype 'q extended = Blocked | Failed error | Reached "'q node" "'q node"

text \<open>
  \<^verbatim>\<open>tryExtend\<close>. The two nearest-neighbour searches, and then the two extensions, run
  concurrently on different trees; here the one on \<^verbatim>\<open>map1\<close> runs first. The two child
  generators are drawn from \<^verbatim>\<open>mp.randseed\<close> before the extensions start.
\<close>

definition tryExtend ::
  "('q, 'v, 'r) planner \<Rightarrow> plannerOptions \<Rightarrow> 'q node \<Rightarrow> ('q, 'r) runState
     \<Rightarrow> 'q extended \<times> ('q, 'r) runState" where
  "tryExtend mp po target s =
     (let nearest1 = nearestNeighbor mp target (map1_r s);
          nearest2 = nearestNeighbor mp target (map2_r s)
      in if ctxDone mp (polls (wld_r s)) then (Failed ErrCtx, s\<lparr>wld_r := tick (wld_r s)\<rparr>)
         else
           let w = tick (wld_r s);
               (r1, g) = randInt mp (randseed w);
               rseed1 = randNew mp r1;
               (r2, g) = randInt mp g;
               rseed2 = randNew mp r2;
               w = w\<lparr>randseed := g\<rparr>
           in case nearest1 of
                None \<Rightarrow> (Blocked, s\<lparr>wld_r := w\<rparr>)
              | Some n1 \<Rightarrow>
                  (case nearest2 of
                     None \<Rightarrow> (Blocked, s\<lparr>wld_r := w\<rparr>)
                   | Some n2 \<Rightarrow>
                       let (map1reached, m1, x1, w) = constrainedExtend mp po rseed1 (map1_r s) n1 target w;
                           (map2reached, m2, x2, w) = constrainedExtend mp po rseed2 (map2_r s) n2 target w;
                           w = SetCorner map1reached True w;
                           w = SetCorner map2reached True w
                       in (Reached map1reached map2reached, (setMaps m1 m2 s)\<lparr>wld_r := w\<rparr>)))"

definition failure :: "error \<Rightarrow> ('q, 'r) runState \<Rightarrow> 'q rrtSolution option" where
  "failure e s = Some \<lparr>steps = None, err = Some e, maps = Some (rmaps s)\<rparr>"

text \<open>
  The end of an iteration of the outer loop, from the comment \<^verbatim>\<open>Solved!\<close> on: the path
  is extracted when the two reached nodes are close enough; otherwise a new target is
  sampled and the two trees change roles.
\<close>

definition rrt_finish ::
  "('q, 'v, 'r) planner \<Rightarrow> plannerOptions \<Rightarrow> nat \<Rightarrow> 'q node \<Rightarrow> 'q node \<Rightarrow> real
     \<Rightarrow> ('q, 'r) runState \<Rightarrow> ('q rrtSolution option, ('q, 'r) runState) flow" where
  "rrt_finish mp po i map1reached map2reached reachedDelta s =
     (if reachedDelta \<le> InputIdentDist po then
        Return (Some \<lparr>steps = Some (extractPath mp (startMap (rmaps s)) (goalMap (rmaps s))
                                       (map1reached, map2reached) True),
                      err = None, maps = Some (rmaps s)\<rparr>) s
      else
        let (res, g) = sample mp map1reached (int i) (randseed (wld_r s));
            s = s\<lparr>wld_r := (wld_r s)\<lparr>randseed := g\<rparr>\<rparr>
        in case res of
             Inl e \<Rightarrow> Return (failure e s) s
           | Inr q \<Rightarrow>
               let (t, w) = newConfigurationNode q (wld_r s)
               in Next (s\<lparr>target_r := t, wld_r := w, swapped := \<not> swapped s\<rparr>))"

text \<open>One iteration of the outer loop of \<^verbatim>\<open>rrtBackgroundRunner\<close>; \<open>Return\<close> is a send on
  the solution channel followed by the return.\<close>

definition rrt_body ::
  "('q, 'v, 'r) planner \<Rightarrow> plannerOptions \<Rightarrow> nat \<Rightarrow> ('q, 'r) runState
     \<Rightarrow> ('q rrtSolution option, ('q, 'r) runState) flow" where
  "rrt_body mp po i s0 =
     (if ctxDone mp (polls (wld_r s0))
      then Return (failure ErrTimeout s0) (s0\<lparr>wld_r := tick (wld_r s0)\<rparr>)
      else
        case tryExtend mp po (target_r s0) (s0\<lparr>wld_r := tick (wld_r s0)\<rparr>) of
          (Blocked, s) \<Rightarrow> Return None s
        | (Failed e, s) \<Rightarrow> Return (failure e s) s
        | (Reached map1reached map2reached, s) \<Rightarrow>
            let reachedDelta = configurationDistanceFunc mp (Q map1reached) (Q map2reached)
            in if reachedDelta > InputIdentDist po then
                 (case InterpolateFS mp (Q map1reached) (Q map2reached) (1 / 2) of
                    Inl e \<Rightarrow> Return (failure e s) s
                  | Inr targetConf \<Rightarrow>
                      let (t, w) = newConfigurationNode targetConf (wld_r s);
                          s = s\<lparr>target_r := t, wld_r := w\<rparr>
                      in (case tryExtend mp po t s of
                            (Blocked, s) \<Rightarrow> Return None s
                          | (Failed e, s) \<Rightarrow> Return (failure e s) s
                          | (Reached map1reached map2reached, s) \<Rightarrow>
                              rrt_finish mp po i map1reached map2reached
                                (configurationDistanceFunc mp (Q map1reached) (Q map2reached)) s))
               else rrt_finish mp po i map1reached map2reached reachedDelta s)"

function rrt_loop ::
  "('q, 'v, 'r) planner \<Rightarrow> plannerOptions \<Rightarrow> nat \<Rightarrow> ('q, 'r) runState
     \<Rightarrow> 'q rrtSolution option \<times> ('q, 'r) runState" where
  "rrt_loop mp po i s =
     (if int i < PlanIter po then
        (case rrt_body mp po i s of
           Return r s' \<Rightarrow> (r, s')
         | Next s' \<Rightarrow> rrt_loop mp po (Suc i) s')
      else (failure ErrPlannerFailed s, s))"
  by pat_completeness auto
termination
  by (relation "measure (\<lambda>(mp, po, i, s). nat (PlanIter po) - i)") auto

declare rrt_loop.simps [simp del]

text \<open>
  \<^verbatim>\<open>rrtBackgroundRunner\<close>: the solution it sends (\<open>None\<close> when it never sends one) and
  the world it leaves. The seed is the configuration of the first root that a
  \<^verbatim>\<open>range\<close> over the start tree meets.
\<close>

definition rrtBackgroundRunner ::
  "('q, 'v, 'r) planner \<Rightarrow> 'q rrtMaps \<Rightarrow> 'r world \<Rightarrow> 'q rrtSolution option \<times> 'r world" where
  "rrtBackgroundRunner mp ms w =
     (case planOpts mp of
        None \<Rightarrow> (Some \<lparr>steps = None, err = Some ErrNoPlannerOptions, maps = None\<rparr>, w)
      | Some po \<Rightarrow>
          let seed = (case find (\<lambda>sNode. startMap ms sNode = Some None) (rangeMap mp (startMap ms)) of
                        Some sNode \<Rightarrow> Q sNode
                      | None \<Rightarrow> nilInputs mp)
          in (case InterpolateFS mp seed (Q (optNode ms)) (1 / 2) of
                Inl e \<Rightarrow> (Some \<lparr>steps = None, err = Some e, maps = None\<rparr>, w)
              | Inr interpConfig \<Rightarrow>
                  let (target, w) = newConfigurationNode interpConfig w;
                      (r, s) = rrt_loop mp po 0
                                 \<lparr>rmaps = ms, swapped = False, target_r = target, wld_r = w\<rparr>
                  in (r, wld_r s)))"

text \<open>
  The first iterations of the outer loop, as long as none of them sends a solution:
  the state after \<open>n\<close> iterations from iteration \<open>i\<close> on, or \<open>None\<close> when one of them
  has left the runner.
\<close>

fun rrt_iterations ::
  "('q, 'v, 'r) planner \<Rightarrow> plannerOptions \<Rightarrow> nat \<Rightarrow> nat \<Rightarrow> ('q, 'r) runState
     \<Rightarrow> ('q, 'r) runState option" where
  "rrt_iterations mp po i 0 s = Some s"
| "rrt_iterations mp po i (Suc n) s =
     (case rrt_body mp po i s of
        Return r s' \<Rightarrow> None
      | Next s' \<Rightarrow> rrt_iterations mp po (Suc i) n s')"

section \<open>smoothPath\<close>

text \<open>Go's integer division, which truncates toward zero.\<close>

definition goDiv :: "int \<Rightarrow> int \<Rightarrow> int" where
  "goDiv a b = sgn a * sgn b * (\<bar>a\<bar> div \<bar>b\<bar>)"

record ('q, 'r) smoothState =
  inputSteps :: "'q node list"
  wld_s :: "'r world"

text \<open>
  The loop that walks \<^verbatim>\<open>j\<close> forward and collects the corners it passes; it gives the
  final \<^verbatim>\<open>j\<close> and \<^verbatim>\<open>hitCorners\<close>.
\<close>

function walkCorners ::
  "(nat \<Rightarrow> bool) \<Rightarrow> 'q node list \<Rightarrow> nat \<Rightarrow> nat \<Rightarrow> nat \<Rightarrow> 'q node list \<Rightarrow> nat \<times> 'q node list" where
  "walkCorners crn path numCornersToPass j cornersPassed hitCorners =
     (if (cornersPassed \<noteq> numCornersToPass \<or> \<not> crn (ident (path ! j))) \<and> j < length path - 1
      then
        if cornersPassed < numCornersToPass \<and> crn (ident (path ! Suc j))
        then walkCorners crn path numCornersToPass (Suc j) (Suc cornersPassed)
               (hitCorners @ [path ! Suc j])
        else walkCorners crn path numCornersToPass (Suc j) cornersPassed hitCorners
      else (j, hitCorners))"
  by pat_completeness auto
termination
  by (relation "measure (\<lambda>(crn, path, n, j, c, h). length path - j)") auto

declare walkCorners.simps [simp del]

text \<open>
  The loop \<^verbatim>\<open>for reached != nil\<close> that appends the parent chain of \<^verbatim>\<open>reached\<close> to
  \<^verbatim>\<open>newInputSteps\<close>; a key that the tree does not have reads as nil. The loop does not
  end on a tree with a cycle, which is the result \<open>None\<close>.
\<close>

partial_function (option) parentChain ::
  "'q rrtMap \<Rightarrow> 'q node option \<Rightarrow> 'q node list \<Rightarrow> 'q node list option" where
  "parentChain shortcutGoal reached newInputSteps =
     (case reached of
        None \<Rightarrow> Some newInputSteps
      | Some n \<Rightarrow>
          parentChain shortcutGoal (case shortcutGoal n of None \<Rightarrow> None | Some p \<Rightarrow> p)
            (newInputSteps @ [n]))"

text \<open>
  One iteration of the inner loop of \<^verbatim>\<open>smoothPath\<close>, \<open>None\<close> when it does not end.
  \<^verbatim>\<open>mp.randseed\<close> itself is the generator given to \<^verbatim>\<open>constrainedExtend\<close>, which
  leaves it advanced.
\<close>

definition smoothPath_body ::
  "('q, 'v, 'r) planner \<Rightarrow> plannerOptions \<Rightarrow> nat \<Rightarrow> ('q, 'r) smoothState
     \<Rightarrow> ('q node list, ('q, 'r) smoothState) flow option" where
  "smoothPath_body mp po numCornersToPass s0 =
     (if ctxDone mp (polls (wld_s s0))
      then Some (Return (inputSteps s0) (s0\<lparr>wld_s := tick (wld_s s0)\<rparr>))
      else
        let path = inputSteps s0;
            w = tick (wld_s s0);
            (iv, g) = randIntn mp (randseed w) (int (length path) - 2);
            w = w\<lparr>randseed := g\<rparr>;
            i = nat iv;
            (j, hitCorners) = walkCorners (corner w) path numCornersToPass (Suc i) 0 []
        in if hitCorners = [] then Some (Next (s0\<lparr>wld_s := w\<rparr>))
           else
             let iSol = path ! i;
                 jSol = path ! j;
                 shortcutGoal = [jSol \<mapsto> None];
                 (reached, shortcutGoal, g, w) =
                   constrainedExtend mp po (randseed w) shortcutGoal jSol iSol w;
                 w = w\<lparr>randseed := g\<rparr>;
                 dist = configurationDistanceFunc mp (Q (path ! i)) (Q reached)
             in if dist < InputIdentDist po then
                  let w = foldl (\<lambda>w hitCorner. SetCorner hitCorner False w) w hitCorners
                  in case parentChain shortcutGoal (Some reached) (take i path) of
                       None \<Rightarrow> None
                     | Some newInputSteps \<Rightarrow>
                         let w = SetCorner (newInputSteps ! i) True w;
                             w = SetCorner (newInputSteps ! (length newInputSteps - 1)) True w;
                             newInputSteps = newInputSteps @ drop (Suc j) path
                         in Some (Next \<lparr>inputSteps = newInputSteps, wld_s = w\<rparr>)
                else Some (Next (s0\<lparr>wld_s := w\<rparr>)))"

text \<open>
  The inner loop for one value of \<^verbatim>\<open>numCornersToPass\<close>: \<open>Inl\<close> when the function has
  returned from inside the loop, \<open>Inr\<close> when the loop has ended.
\<close>

function smoothPath_loop ::
  "('q, 'v, 'r) planner \<Rightarrow> plannerOptions \<Rightarrow> int \<Rightarrow> nat \<Rightarrow> nat \<Rightarrow> ('q, 'r) smoothState
     \<Rightarrow> ('q node list \<times> ('q, 'r) smoothState + ('q, 'r) smoothState) option" where
  "smoothPath_loop mp po toIter numCornersToPass iter s =
     (if int iter < goDiv toIter 2 \<and> length (inputSteps s) > 3 then
        (case smoothPath_body mp po numCornersToPass s of
           None \<Rightarrow> None
         | Some (Return r s') \<Rightarrow> Some (Inl (r, s'))
         | Some (Next s') \<Rightarrow> smoothPath_loop mp po toIter numCornersToPass (Suc iter) s')
      else Some (Inr s))"
  by pat_completeness auto
termination
  by (relation "measure (\<lambda>(mp, po, toIter, n, iter, s). nat (goDiv toIter 2) - iter)") auto

declare smoothPath_loop.simps [simp del]

text \<open>
  \<^verbatim>\<open>smoothPath\<close>: the path it returns and the world it leaves, \<open>None\<close> when it does not
  return. The conversions of the two integers to float64 and back keep their values.
\<close>

definition smoothPath ::
  "('q, 'v, 'r) planner \<Rightarrow> plannerOptions \<Rightarrow> 'q node list \<Rightarrow> 'r world
     \<Rightarrow> ('q node list \<times> 'r world) option" where
  "smoothPath mp po path w =
     (let toIter = min (int (length path) * int (length path)) (SmoothIter po)
      in case smoothPath_loop mp po toIter 2 0 \<lparr>inputSteps = path, wld_s = w\<rparr> of
           None \<Rightarrow> None
         | Some (Inl (r, s)) \<Rightarrow> Some (r, wld_s s)
         | Some (Inr s) \<Rightarrow>
             (case smoothPath_loop mp po toIter 1 0 s of
                None \<Rightarrow> None
              | Some (Inl (r, s)) \<Rightarrow> Some (r, wld_s s)
              | Some (Inr s) \<Rightarrow> Some (inputSteps s, wld_s s)))"

section \<open>Predicates of the properties\<close>

text \<open>
  The constraint handler reports a failing sub-segment that starts where the checked
  segment starts.
\<close>

definition startPreserving :: "('q, 'v, 'r) planner \<Rightarrow> plannerOptions \<Rightarrow> bool" where
  "startPreserving mp po =
     (\<forall>a b f. snd (CheckSegmentAndStateValidityFS mp a b (Resolution po)) = Some f \<longrightarrow> fst f = a)"

text \<open>Two states of \<^verbatim>\<open>constrainedExtend\<close> that differ at most in the local step table.\<close>

definition sameButQstep :: "('q, 'r) extendState \<Rightarrow> ('q, 'r) extendState \<Rightarrow> bool" where
  "sameButQstep s t =
     (doubled s = doubled t \<and> oldNear s = oldNear t \<and> near s = near t \<and>
      rrtMap s = rrtMap t \<and> randseed_x s = randseed_x t \<and> wld s = wld t)"

definition treesNonempty :: "('q, 'r) runState \<Rightarrow> bool" where
  "treesNonempty s = (startMap (rmaps s) \<noteq> Map.empty \<and> goalMap (rmaps s) \<noteq> Map.empty)"

text \<open>
  A tree that \<^verbatim>\<open>constrainedExtend\<close> has grown from the single root \<open>rt\<close>: the root is
  the only node without parent, every key was created before \<open>bound\<close>, and the parent of
  a node is a key that was created before the node.
\<close>

definition shortcutTree :: "'q node \<Rightarrow> nat \<Rightarrow> 'q rrtMap \<Rightarrow> bool" where
  "shortcutTree rt bound m =
     (m rt = Some None \<and> (\<forall>n. m n = Some None \<longrightarrow> n = rt) \<and>
      (\<forall>n p. m n = Some p \<longrightarrow> ident n < bound) \<and>
      (\<forall>n p. m n = Some (Some p) \<longrightarrow> m p \<noteq> None \<and> ident p < ident n))"

text \<open>A list of nodes in which every node is followed by its parent.\<close>

definition isChain :: "'q rrtMap \<Rightarrow> 'q node list \<Rightarrow> bool" where
  "isChain m xs = (\<forall>k. Suc k < length xs \<longrightarrow> m (xs ! k) = Some (Some (xs ! Suc k)))"

text \<open>The invariant of the loop of \<^verbatim>\<open>constrainedExtend\<close> on such a tree.\<close>

definition extendInv :: "'q node \<Rightarrow> ('q, 'r) extendState \<Rightarrow> bool" where
  "extendInv rt s =
     (shortcutTree rt (nextId (wld s)) (rrtMap s) \<and>
      rrtMap s (near s) \<noteq> None \<and> rrtMap s (oldNear s) \<noteq> None)"

section \<open>Example planners\<close>

text \<open>
  A planner for one frame \<open>x\<close> with one DOF: a configuration is a point of the real line,
  the distance is the absolute difference, the interpolation steps toward the target by
  at most the step of the table, the generator counts, and the context is never
  cancelled. Every segment is valid. The nearest neighbour is searched among the nodes
  of a given list, and the path is extracted by walking up to eight parents in each tree.
\<close>

definition lineOptions :: plannerOptions where
  "lineOptions = \<lparr>PlanIter = 2, InputIdentDist = 1 / 10, Resolution = 1, SmoothIter = 10\<rparr>"

definition stepOf :: "qsteps \<Rightarrow> real" where
  "stepOf qs = (case qs ''x'' of Some [Fin r] \<Rightarrow> r | _ \<Rightarrow> 0)"

definition lineStep :: "real node \<Rightarrow> real node \<Rightarrow> qsteps \<Rightarrow> real" where
  "lineStep a b qs =
     (let r = stepOf qs; d = Q b - Q a
      in if \<bar>d\<bar> \<le> r then Q b else if 0 < d then Q a + r else Q a - r)"

definition nearestAmong :: "real node list \<Rightarrow> real node \<Rightarrow> real rrtMap \<Rightarrow> real node option" where
  "nearestAmong cands t m =
     foldl (\<lambda>best c.
              if m c = None then best
              else case best of
                     None \<Rightarrow> Some c
                   | Some b \<Rightarrow> if \<bar>Q c - Q t\<bar> < \<bar>Q b - Q t\<bar> then Some c else best)
       None cands"

fun parents :: "nat \<Rightarrow> real rrtMap \<Rightarrow> real node \<Rightarrow> real node list" where
  "parents 0 m n = [n]"
| "parents (Suc k) m n = (case m n of Some (Some p) \<Rightarrow> n # parents k m p | _ \<Rightarrow> [n])"

definition linePath ::
  "real rrtMap \<Rightarrow> real rrtMap \<Rightarrow> real node \<times> real node \<Rightarrow> bool \<Rightarrow> real node list" where
  "linePath sm gm pair matched =
     (let (sr, gr) = (if sm (fst pair) \<noteq> None then (fst pair, snd pair) else (snd pair, fst pair));
          up = parents 8 gm gr
      in rev (parents 8 sm sr) @ (if matched then tl up else up))"

definition linePlanner :: "(real, real, nat) planner" where
  "linePlanner =
     \<lparr>planOpts = Some lineOptions,
      qstep = [''x'' \<mapsto> [Fin 1]],
      configurationDistanceFunc = (\<lambda>a b. \<bar>a - b\<bar>),
      CheckSegmentAndStateValidityFS = (\<lambda>a b r. (True, None)),
      fixedStepInterpolation = lineStep,
      InterpolateFS = (\<lambda>a b t. Inr (a + t * (b - a))),
      mapToSlice = Some,
      sliceToMap = Some,
      Solve = (\<lambda>v r. (False, Some v)),
      randInt = (\<lambda>r. (int r, Suc r)),
      randIntn = (\<lambda>r n. (int r mod n, Suc r)),
      randNew = (\<lambda>k. nat k),
      ctxDone = (\<lambda>k. False),
      nearestNeighbor = nearestAmong [Node 0 0, Node 1 (1 / 20)],
      sample = (\<lambda>n i r. (Inr (Q n), r)),
      extractPath = linePath,
      rangeMap = (\<lambda>m. [Node 0 0]),
      nilInputs = 0,
      round64 = Fin\<rparr>"

definition world0 :: "nat world" where
  "world0 = \<lparr>polls = 0, nextId = 2, corner = (\<lambda>k. False), randseed = 0\<rparr>"

text \<open>
  The only valid segment goes from 1 to 2, every other check reports the failing
  sub-segment from 1 to 2, and the solver always answers 3/2.
\<close>

definition detourPlanner :: "(real, real, nat) planner" where
  "detourPlanner = linePlanner
     \<lparr>CheckSegmentAndStateValidityFS :=
        (\<lambda>a b r. if a = 1 \<and> b = 2 then (True, None) else (False, Some (1, 2))),
      Solve := (\<lambda>v r. (False, Some (3 / 2)))\<rparr>"

text \<open>
  A segment is valid when it ends at 7, every other check reports a failing sub-segment
  from the start of the segment to 4, and the solver answers 5 on the random number 0
  and 7 on every other.
\<close>

definition retryPlanner :: "(real, real, nat) planner" where
  "retryPlanner = linePlanner
     \<lparr>CheckSegmentAndStateValidityFS :=
        (\<lambda>a b r. if b = 7 then (True, None) else (False, Some (a, 4))),
      Solve := (\<lambda>v r. (False, Some (if r = 0 then 5 else 7)))\<rparr>"

text \<open>
  A segment is valid when it stays where it is or advances by at least 2, and the solver
  always descends back to 0.
\<close>

definition stuckPlanner :: "(real, real, nat) planner" where
  "stuckPlanner = linePlanner
     \<lparr>CheckSegmentAndStateValidityFS :=
        (\<lambda>a b r. if a = b \<or> 2 \<le> b - a then (True, None) else (False, None)),
      Solve := (\<lambda>v r. (False, Some 0))\<rparr>"










text \<open>
  Planners for the outer loop, with trees of one root each. In the first, no segment is
  valid and the solver fails, so that no tree ever grows. In the second, a segment is
  valid when it ends at a configuration that is not negative, and the solver fails.
\<close>

definition closedPlanner :: "(real, real, nat) planner" where
  "closedPlanner = linePlanner
     \<lparr>CheckSegmentAndStateValidityFS := (\<lambda>a b r. (False, None)),
      Solve := (\<lambda>v r. (True, None)),
      nearestNeighbor := nearestAmong [Node 0 0, Node 1 (3 / 2)]\<rparr>"

definition wallPlanner :: "(real, real, nat) planner" where
  "wallPlanner = linePlanner
     \<lparr>CheckSegmentAndStateValidityFS := (\<lambda>a b r. if 0 \<le> b then (True, None) else (False, None)),
      Solve := (\<lambda>v r. (True, None)),
      nearestNeighbor := nearestAmong [Node 0 0, Node 1 (3 / 2), Node 3 (1 / 2)]\<rparr>"

definition world3 :: "nat world" where
  "world3 = \<lparr>polls = 0, nextId = 3, corner = (\<lambda>k. False), randseed = 0\<rparr>"

text \<open>The state at the start of the outer loop: the start tree with its root at 0, the goal
  tree with its root at \<open>goal\<close>, and the first target.\<close>

definition runStart :: "real \<Rightarrow> real \<Rightarrow> (real, nat) runState" where
  "runStart goal tgt =
     \<lparr>rmaps = \<lparr>startMap = [Node 0 0 \<mapsto> None], goalMap = [Node 1 goal \<mapsto> None],
               optNode = Node 1 goal\<rparr>,
      swapped = False, target_r = Node 2 tgt, wld_r = world3\<rparr>"

text \<open>
  A planner with the step 4 and a start tree of two roots, at 0 and at 2, which a
  \<^verbatim>\<open>range\<close> loop visits in this order; the goal tree has its root at 10.
\<close>

definition orderA :: "(real, real, nat) planner" where
  "orderA = linePlanner
     \<lparr>qstep := [''x'' \<mapsto> [Fin 4]],
      nearestNeighbor := nearestAmong [Node 0 0, Node 1 2, Node 2 10],
      rangeMap := (\<lambda>m. [Node 0 0, Node 1 2])\<rparr>"

definition twoRoots :: "real rrtMaps" where
  "twoRoots = \<lparr>startMap = [Node 0 0 \<mapsto> None, Node 1 2 \<mapsto> None],
               goalMap = [Node 2 10 \<mapsto> None], optNode = Node 2 10\<rparr>"

text \<open>A path of four nodes on the line, the third one a corner.\<close>

definition path4 :: "real node list" where
  "path4 = [Node 0 0, Node 1 1, Node 2 2, Node 3 3]"

definition worldS :: "nat world" where
  "worldS = \<lparr>polls = 0, nextId = 4, corner = (\<lambda>k. k = 2), randseed = 0\<rparr>"

section \<open>Properties of the step table\<close>

lemma getFrameSteps_snoc:
  "getFrameSteps rnd (fs @ [f]) p
     = (getFrameSteps rnd fs p)(Name f \<mapsto> map (dofStep rnd p) (DoF f))"
  by (simp add: getFrameSteps_def)

text \<open>Every vector of the table is the vector of a frame of that name.\<close>

lemma getFrameSteps_lookup:
  "getFrameSteps rnd fs p n = Some v \<Longrightarrow>
     \<exists>i < length fs. Name (fs ! i) = n \<and> v = map (dofStep rnd p) (DoF (fs ! i))"
proof (induction fs arbitrary: v rule: rev_induct)
  case Nil
  then show ?case by (simp add: getFrameSteps_def)
next
  case (snoc f fs)
  show ?case
  proof (cases "Name f = n")
    case True
    with snoc.prems have "v = map (dofStep rnd p) (DoF f)"
      by (simp add: getFrameSteps_snoc)
    with True show ?thesis
      by (intro exI [of _ "length fs"]) simp
  next
    case False
    with snoc.prems have "getFrameSteps rnd fs p n = Some v"
      by (simp add: getFrameSteps_snoc)
    from snoc.IH [OF this] obtain i where
      "i < length fs" "Name (fs ! i) = n" "v = map (dofStep rnd p) (DoF (fs ! i))"
      by blast
    then show ?thesis
      by (intro exI [of _ i]) (simp add: nth_append)
  qed
qed

text \<open>Every frame that no later frame of the same name overwrites has its vector in the
  table.\<close>

lemma getFrameSteps_frame:
  "k < length fs \<Longrightarrow> \<forall>k'. k < k' \<and> k' < length fs \<longrightarrow> Name (fs ! k') \<noteq> Name (fs ! k) \<Longrightarrow>
     getFrameSteps rnd fs p (Name (fs ! k)) = Some (map (dofStep rnd p) (DoF (fs ! k)))"
proof (induction fs rule: rev_induct)
  case Nil
  then show ?case by simp
next
  case (snoc f fs)
  show ?case
  proof (cases "k < length fs")
    case True
    from snoc.prems(2) [rule_format, of "length fs"] True
    have ne: "Name f \<noteq> Name (fs ! k)"
      by (simp add: nth_append)
    have "\<forall>k'. k < k' \<and> k' < length fs \<longrightarrow> Name (fs ! k') \<noteq> Name (fs ! k)"
    proof (intro allI impI)
      fix k' assume k': "k < k' \<and> k' < length fs"
      with snoc.prems(2) [rule_format, of k'] True show "Name (fs ! k') \<noteq> Name (fs ! k)"
        by (simp add: nth_append)
    qed
    from snoc.IH [OF True this] ne True show ?thesis
      by (simp add: getFrameSteps_snoc nth_append)
  next
    case False
    with snoc.prems(1) have "k = length fs" by simp
    then show ?thesis
      by (simp add: getFrameSteps_snoc)
  qed
qed

lemma dofStep_abs:
  "dofStep rnd p lm
     = fmul rnd (fabs (fsub rnd (clampUpper (Max_lim lm)) (clampLower (Min_lim lm)))) p"
  by (simp add: dofStep_def clampUpper_def clampLower_def Let_def)

lemma fmul_commute: "fmul rnd a b = fmul rnd b a"
  by (cases a; cases b) (simp_all add: mult.commute)

lemma dofStep_nonnegative_width:
  assumes "fabs (fsub rnd (clampUpper (Max_lim lm)) (clampLower (Min_lim lm)))
             = fsub rnd (clampUpper (Max_lim lm)) (clampLower (Min_lim lm))"
  shows "dofStep rnd p lm = specStep rnd p lm"
  using assms by (simp add: dofStep_abs specStep_def fmul_commute)

text \<open>
  C8 (as amended). The table of \<^verbatim>\<open>getFrameSteps\<close> has, for every frame (the last one of
  its name), a vector with one entry per DOF of the frame, and nothing else. The entry of
  a DOF is the float64 product of the absolute value of the width of the limit range
  (upper minus lower in float64, a lower limit of minus infinity replaced by -999 and an
  upper limit of plus infinity by 999) and the percentage. It is the percentage times the
  width itself whenever the computed width is its own absolute value. Nothing is said of
  the sign of an entry beyond that.
\<close>

theorem getFrameSteps_entries:
  "(\<forall>k < length frames.
      (\<forall>k'. k < k' \<and> k' < length frames \<longrightarrow> Name (frames ! k') \<noteq> Name (frames ! k)) \<longrightarrow>
      (\<exists>v. getFrameSteps rnd frames p (Name (frames ! k)) = Some v \<and>
           length v = length (DoF (frames ! k)) \<and>
           (\<forall>i < length v.
              v ! i = fmul rnd (fabs (fsub rnd (clampUpper (Max_lim (DoF (frames ! k) ! i)))
                                              (clampLower (Min_lim (DoF (frames ! k) ! i))))) p \<and>
              (fabs (fsub rnd (clampUpper (Max_lim (DoF (frames ! k) ! i)))
                              (clampLower (Min_lim (DoF (frames ! k) ! i))))
                 = fsub rnd (clampUpper (Max_lim (DoF (frames ! k) ! i)))
                            (clampLower (Min_lim (DoF (frames ! k) ! i))) \<longrightarrow>
               v ! i = specStep rnd p (DoF (frames ! k) ! i))))) \<and>
   (\<forall>n v. getFrameSteps rnd frames p n = Some v \<longrightarrow>
      (\<exists>k < length frames. Name (frames ! k) = n \<and>
          v = map (\<lambda>lm. fmul rnd (fabs (fsub rnd (clampUpper (Max_lim lm))
                                                  (clampLower (Min_lim lm)))) p)
                (DoF (frames ! k))))"
proof (intro conjI allI impI)
  fix k
  assume k: "k < length frames"
    and last: "\<forall>k'. k < k' \<and> k' < length frames \<longrightarrow> Name (frames ! k') \<noteq> Name (frames ! k)"
  let ?v = "map (dofStep rnd p) (DoF (frames ! k))"
  have "getFrameSteps rnd frames p (Name (frames ! k)) = Some ?v"
    using k last by (rule getFrameSteps_frame)
  moreover have "length ?v = length (DoF (frames ! k))"
    by simp
  moreover have "\<forall>i < length ?v.
      ?v ! i = fmul rnd (fabs (fsub rnd (clampUpper (Max_lim (DoF (frames ! k) ! i)))
                                      (clampLower (Min_lim (DoF (frames ! k) ! i))))) p \<and>
      (fabs (fsub rnd (clampUpper (Max_lim (DoF (frames ! k) ! i)))
                      (clampLower (Min_lim (DoF (frames ! k) ! i))))
         = fsub rnd (clampUpper (Max_lim (DoF (frames ! k) ! i)))
                    (clampLower (Min_lim (DoF (frames ! k) ! i))) \<longrightarrow>
       ?v ! i = specStep rnd p (DoF (frames ! k) ! i))"
    by (simp add: dofStep_abs [symmetric] dofStep_nonnegative_width)
  ultimately show "\<exists>v. getFrameSteps rnd frames p (Name (frames ! k)) = Some v \<and>
           length v = length (DoF (frames ! k)) \<and>
           (\<forall>i < length v.
              v ! i = fmul rnd (fabs (fsub rnd (clampUpper (Max_lim (DoF (frames ! k) ! i)))
                                              (clampLower (Min_lim (DoF (frames ! k) ! i))))) p \<and>
              (fabs (fsub rnd (clampUpper (Max_lim (DoF (frames ! k) ! i)))
                              (clampLower (Min_lim (DoF (frames ! k) ! i))))
                 = fsub rnd (clampUpper (Max_lim (DoF (frames ! k) ! i)))
                            (clampLower (Min_lim (DoF (frames ! k) ! i))) \<longrightarrow>
               v ! i = specStep rnd p (DoF (frames ! k) ! i)))"
    by blast
next
  fix n v
  assume "getFrameSteps rnd frames p n = Some v"
  from getFrameSteps_lookup [OF this] obtain k where
    "k < length frames" "Name (frames ! k) = n" "v = map (dofStep rnd p) (DoF (frames ! k))"
    by blast
  moreover have "dofStep rnd p
      = (\<lambda>lm. fmul rnd (fabs (fsub rnd (clampUpper (Max_lim lm)) (clampLower (Min_lim lm)))) p)"
    by (rule ext) (rule dofStep_abs)
  ultimately show "\<exists>k < length frames. Name (frames ! k) = n \<and>
          v = map (\<lambda>lm. fmul rnd (fabs (fsub rnd (clampUpper (Max_lim lm))
                                                  (clampLower (Min_lim lm)))) p)
                (DoF (frames ! k))"
    by auto
qed

text \<open>
  A frame with one DOF limited to \<^verbatim>\<open>[-1, 1]\<close> and one unlimited DOF, at the percentage
  one quarter. All the values are floats, so the rounding leaves them as they are.
\<close>

theorem getFrameSteps_entries_witness:
  "getFrameSteps Fin [\<lparr>Name = ''arm'', DoF = [\<lparr>Min_lim = Fin (- 1), Max_lim = Fin 1\<rparr>,
                                                \<lparr>Min_lim = NegInf, Max_lim = PosInf\<rparr>]\<rparr>]
       (Fin (1 / 4)) ''arm''
     = Some [Fin (1 / 2), Fin (999 / 2)] \<and>
   [Fin (1 / 2), Fin (999 / 2)]
     = map (\<lambda>lm. fmul Fin (fabs (fsub Fin (clampUpper (Max_lim lm)) (clampLower (Min_lim lm))))
                    (Fin (1 / 4)))
         [\<lparr>Min_lim = Fin (- 1), Max_lim = Fin 1\<rparr>, \<lparr>Min_lim = NegInf, Max_lim = PosInf\<rparr>] \<and>
   (\<exists>v. getFrameSteps Fin [\<lparr>Name = ''arm'', DoF = [\<lparr>Min_lim = Fin (- 1), Max_lim = Fin 1\<rparr>,
                                                     \<lparr>Min_lim = NegInf, Max_lim = PosInf\<rparr>]\<rparr>]
            (Fin (1 / 4)) ''arm'' = Some v \<and> length v = 2)"
proof -
  let ?fs = "[\<lparr>Name = ''arm'', DoF = [\<lparr>Min_lim = Fin (- 1), Max_lim = Fin 1\<rparr>,
                                        \<lparr>Min_lim = NegInf, Max_lim = PosInf\<rparr>]\<rparr>]"
  have t: "getFrameSteps Fin ?fs (Fin (1 / 4)) ''arm'' = Some [Fin (1 / 2), Fin (999 / 2)]"
    by (simp add: getFrameSteps_def dofStep_def)
  note getFrameSteps_entries [of ?fs Fin "Fin (1 / 4)", THEN conjunct2, THEN spec, THEN spec,
      THEN mp, OF t]
  then have "[Fin (1 / 2), Fin (999 / 2)]
     = map (\<lambda>lm. fmul Fin (fabs (fsub Fin (clampUpper (Max_lim lm)) (clampLower (Min_lim lm))))
                    (Fin (1 / 4)))
         (DoF (?fs ! 0))"
    by auto
  moreover have "0 < length ?fs"
    by simp
  moreover have "\<forall>k'. 0 < k' \<and> k' < length ?fs \<longrightarrow> Name (?fs ! k') \<noteq> Name (?fs ! 0)"
    by auto
  ultimately show ?thesis
    using t getFrameSteps_entries [of ?fs Fin "Fin (1 / 4)", THEN conjunct1, THEN spec, of 0]
    by auto
qed

text \<open>
  C8 as stated fails: a DOF limited to \<^verbatim>\<open>[-Inf, -2000]\<close> has the range from -999 to
  -2000, and at the percentage one quarter its entry is 250.25, where the percentage
  times upper minus lower is -250.25.
\<close>

theorem getFrameSteps_counterexample:
  "getFrameSteps Fin [\<lparr>Name = ''arm'', DoF = [\<lparr>Min_lim = NegInf, Max_lim = Fin (- 2000)\<rparr>]\<rparr>]
       (Fin (1 / 4)) ''arm''
     = Some [Fin (1001 / 4)] \<and>
   specStep Fin (Fin (1 / 4)) \<lparr>Min_lim = NegInf, Max_lim = Fin (- 2000)\<rparr> = Fin (- (1001 / 4)) \<and>
   Fin (1001 / 4) \<noteq> Fin (- (1001 / 4))"
  by (simp add: getFrameSteps_def dofStep_def specStep_def clampLower_def clampUpper_def)

section \<open>Properties of constrainNear\<close>

lemmas run_simps = constrainedExtend_def constrainedExtend_loop.simps constrainedExtend_body_def
  constrainNear_def constrainNear_loop.simps constrainNear_body_def
  maxExtendIter_def maxNearIter_def tick_def newBasicNode_def deepCopyQstep_def doubleQstep_def
  Let_def power3_eq_cube

lemmas line_simps = linePlanner_def lineOptions_def lineStep_def stepOf_def world0_def


text \<open>
  C3 (as amended). In an iteration of \<^verbatim>\<open>constrainNear\<close> in which the direct segment is
  invalid, the solver gives a solution and the check of the segment to the solution fails:
  when the check gives no failing position the function returns nil; when it gives one
  and the distance between the current target and its end exceeds \<^verbatim>\<open>InputIdentDist\<close>,
  the loop goes on with the start and the end of the failing position as seed and target;
  otherwise the loop goes on to its next iteration with the seed and the target unchanged
  (and a generator that has advanced). Either way one of the at most 20 iterations is
  used up.
\<close>

theorem constrainNear_failing_check:
  assumes "i < maxNearIter" "\<not> ctxDone mp (polls_n s)"
    "\<not> fst (CheckSegmentAndStateValidityFS mp (seedInputs s) (target_n s) (Resolution po))"
    "mapToSlice mp (target_n s) = Some linearSeed"
    "randInt mp (randseed_n s) = (r, rs)"
    "Solve mp linearSeed r = (False, Some sol)"
    "sliceToMap mp sol = Some solutionMap"
    "CheckSegmentAndStateValidityFS mp (seedInputs s) solutionMap (Resolution po) = (False, failpos)"
  shows "constrainNear_loop mp po i s =
     (case failpos of
        None \<Rightarrow> (None, s\<lparr>polls_n := Suc (polls_n s), randseed_n := rs\<rparr>)
      | Some (failStart, failEnd) \<Rightarrow>
          if configurationDistanceFunc mp (target_n s) failEnd > InputIdentDist po
          then constrainNear_loop mp po (Suc i)
                 (s\<lparr>polls_n := Suc (polls_n s), randseed_n := rs,
                    seedInputs := failStart, target_n := failEnd\<rparr>)
          else constrainNear_loop mp po (Suc i)
                 (s\<lparr>polls_n := Suc (polls_n s), randseed_n := rs\<rparr>))"
  using assms
  by (subst constrainNear_loop.simps)
     (simp add: constrainNear_body_def Let_def split: option.splits prod.splits)

text \<open>
  The two cases of a failing position: the retry with the same seed and target, and the
  recursion on the failing position.
\<close>

theorem constrainNear_failing_check_witness:
  "constrainNear_loop retryPlanner lineOptions 0
     \<lparr>seedInputs = 0, target_n = 4, randseed_n = 0, polls_n = 0\<rparr> =
   constrainNear_loop retryPlanner lineOptions (Suc 0)
     \<lparr>seedInputs = 0, target_n = 4, randseed_n = Suc 0, polls_n = Suc 0\<rparr> \<and>
   constrainNear_loop detourPlanner lineOptions 0
     \<lparr>seedInputs = 0, target_n = 1, randseed_n = 0, polls_n = 0\<rparr> =
   constrainNear_loop detourPlanner lineOptions (Suc 0)
     \<lparr>seedInputs = 1, target_n = 2, randseed_n = Suc 0, polls_n = Suc 0\<rparr>"
  using constrainNear_failing_check [of 0 retryPlanner "\<lparr>seedInputs = 0, target_n = 4, randseed_n = 0, polls_n = 0\<rparr>"
      lineOptions 4 0 "Suc 0" 5 5 "Some (0, 4)"]
    constrainNear_failing_check [of 0 detourPlanner "\<lparr>seedInputs = 0, target_n = 1, randseed_n = 0, polls_n = 0\<rparr>"
      lineOptions 1 0 "Suc 0" "3 / 2" "3 / 2" "Some (1, 2)"]
  by (simp add: retryPlanner_def detourPlanner_def line_simps maxNearIter_def)

text \<open>
  C3 as stated fails: the check of the solution fails with a failing position whose end
  is the current target, and \<^verbatim>\<open>constrainNear\<close> does not return nil: it tries again
  and returns the solution of its second iteration.
\<close>

theorem constrainNear_failing_check_counterexample:
  "\<not> fst (CheckSegmentAndStateValidityFS retryPlanner 0 4 (Resolution lineOptions)) \<and>
   Solve retryPlanner 4 0 = (False, Some 5) \<and>
   CheckSegmentAndStateValidityFS retryPlanner 0 5 (Resolution lineOptions) = (False, Some (0, 4)) \<and>
   \<not> configurationDistanceFunc retryPlanner 4 4 > InputIdentDist lineOptions \<and>
   constrainNear retryPlanner lineOptions 0 0 4 0 = (Some 7, 2, 2)"
  by (simp add: run_simps retryPlanner_def line_simps)

text \<open>A configuration that \<^verbatim>\<open>constrainNear\<close> returns has a valid segment from the seed
  of the last iteration.\<close>

lemma constrainNear_body_Return:
  assumes "constrainNear_body mp po s = Return (Some q) s'"
  shows "fst (CheckSegmentAndStateValidityFS mp (seedInputs s') q (Resolution po))"
  using assms
  by (auto simp: constrainNear_body_def Let_def split: if_splits option.splits prod.splits)

lemma constrainNear_loop_valid:
  "constrainNear_loop mp po i s = (Some q, s') \<Longrightarrow>
     fst (CheckSegmentAndStateValidityFS mp (seedInputs s') q (Resolution po))"
proof (induction mp po i s rule: constrainNear_loop.induct)
  case (1 mp po i s)
  show ?case
  proof (cases "constrainNear_body mp po s")
    case (Return r t)
    with "1.prems" have "i < maxNearIter" "r = Some q" "t = s'"
      by (auto simp: constrainNear_loop.simps [of mp po i s] split: if_splits)
    with Return show ?thesis
      by (auto dest: constrainNear_body_Return)
  next
    case (Next t)
    with "1.prems" have "i < maxNearIter" "constrainNear_loop mp po (Suc i) t = (Some q, s')"
      by (auto simp: constrainNear_loop.simps [of mp po i s] split: if_splits)
    with Next "1.IH" show ?thesis
      by blast
  qed
qed

lemma constrainNear_body_seed:
  assumes "startPreserving mp po" "constrainNear_body mp po s = Next s'"
  shows "seedInputs s' = seedInputs s"
  using assms
  apply (auto simp: constrainNear_body_def Let_def startPreserving_def split: if_splits option.splits prod.splits)
  by (metis snd_conv)

lemma constrainNear_body_seed_Return:
  assumes "constrainNear_body mp po s = Return r s'"
  shows "seedInputs s' = seedInputs s"
  using assms
  by (auto simp: constrainNear_body_def Let_def split: if_splits option.splits prod.splits)

lemma constrainNear_loop_seed:
  "startPreserving mp po \<Longrightarrow> constrainNear_loop mp po i s = (r, s') \<Longrightarrow>
     seedInputs s' = seedInputs s"
proof (induction mp po i s rule: constrainNear_loop.induct)
  case (1 mp po i s)
  show ?case
  proof (cases "i < maxNearIter")
    case False
    with "1.prems" show ?thesis
      by (simp add: constrainNear_loop.simps [of mp po i s])
  next
    case True
    show ?thesis
    proof (cases "constrainNear_body mp po s")
      case (Return r' t)
      with True "1.prems" have "t = s'"
        by (simp add: constrainNear_loop.simps [of mp po i s])
      with Return show ?thesis
        by (auto dest: constrainNear_body_seed_Return)
    next
      case (Next t)
      with True "1.prems" have "constrainNear_loop mp po (Suc i) t = (r, s')"
        by (simp add: constrainNear_loop.simps [of mp po i s])
      with Next True "1.IH" "1.prems"(1) have "seedInputs s' = seedInputs t"
        by blast
      with Next "1.prems"(1) show ?thesis
        by (simp add: constrainNear_body_seed)
    qed
  qed
qed

lemma constrainNear_valid:
  assumes "startPreserving mp po" "constrainNear mp po rs seed tgt p = (Some q, rs', p')"
  shows "fst (CheckSegmentAndStateValidityFS mp seed q (Resolution po))"
proof -
  obtain r s where l: "constrainNear_loop mp po 0
      \<lparr>seedInputs = seed, target_n = tgt, randseed_n = rs, polls_n = p\<rparr> = (r, s)"
    by (cases "constrainNear_loop mp po 0
      \<lparr>seedInputs = seed, target_n = tgt, randseed_n = rs, polls_n = p\<rparr>")
  with assms(2) have "r = Some q"
    by (simp add: constrainNear_def)
  with l constrainNear_loop_valid [of mp po 0 _ q s] constrainNear_loop_seed [OF assms(1) l]
  show ?thesis
    by simp
qed



section \<open>Properties of constrainedExtend\<close>

lemma constrainedExtend_body_Return_map:
  assumes "constrainedExtend_body mp po target s = Return n s'"
  shows "rrtMap s' = rrtMap s"
  using assms
  by (auto simp: constrainedExtend_body_def Let_def split: if_splits option.splits prod.splits)

lemma constrainedExtend_body_Next_map:
  assumes "constrainedExtend_body mp po target s = Next s'"
  shows "rrtMap s' = rrtMap s \<or>
    (\<exists>q rs p.
       constrainNear mp po (randseed_x s) (Q (near s))
         (fixedStepInterpolation mp (near s) target (qstep mp)) (Suc (polls (wld s))) = (Some q, rs, p) \<and>
       \<not> configurationDistanceFunc mp (Q (near s)) q < (InputIdentDist po) ^ 3 \<and>
       near s' = Node (nextId (wld s)) q \<and> oldNear s' = near s \<and>
       rrtMap s' = (rrtMap s)(Node (nextId (wld s)) q \<mapsto> Some (near s)))"
  using assms
  by (auto simp: constrainedExtend_body_def Let_def tick_def newBasicNode_def
      split: if_splits option.splits prod.splits)

lemma constrainedExtend_loop_rule:
  assumes "constrainedExtend_loop mp po target i s = (n, s')"
    and "P s"
    and "\<And>t t'. P t \<Longrightarrow> constrainedExtend_body mp po target t = Next t' \<Longrightarrow> P t'"
    and "\<And>t m t'. P t \<Longrightarrow> constrainedExtend_body mp po target t = Return m t' \<Longrightarrow> R m t'"
    and "\<And>t. P t \<Longrightarrow> R (oldNear t) t"
  shows "R n s'"
  using assms
proof (induction mp po target i s rule: constrainedExtend_loop.induct)
  case (1 mp po target i s)
  note inv = "1.prems"(2) and step = "1.prems"(3) and ret = "1.prems"(4) and fall = "1.prems"(5)
  show ?case
  proof (cases "i < maxExtendIter")
    case False
    with "1.prems"(1) fall [OF inv] show ?thesis
      by (auto simp: constrainedExtend_loop.simps [of mp po target i s])
  next
    case True
    show ?thesis
    proof (cases "constrainedExtend_body mp po target s")
      case (Return m t)
      with True "1.prems"(1) have "m = n" "t = s'"
        by (simp_all add: constrainedExtend_loop.simps [of mp po target i s])
      with ret [OF inv Return] show ?thesis
        by simp
    next
      case (Next t)
      with True "1.prems"(1) have "constrainedExtend_loop mp po target (Suc i) t = (n, s')"
        by (simp add: constrainedExtend_loop.simps [of mp po target i s])
      then show ?thesis
        using "1.IH" [OF True Next _ step [OF inv Next]] step ret fall by blast
    qed
  qed
qed



text \<open>
  When the constraint handler reports failing sub-segments that start at the start of the
  checked segment, \<^verbatim>\<open>constrainNear\<close> keeps its seed, and every pair (new node, parent)
  that a call of \<^verbatim>\<open>constrainedExtend\<close> adds to the tree has a valid segment from the
  parent's configuration to the new node's configuration.
\<close>

lemma constrainedExtend_inserted_valid:
  assumes "startPreserving mp po"
    and "fst (snd (constrainedExtend mp po rs m nr target w)) c = Some (Some p)"
  shows "m c = Some (Some p) \<or>
         fst (CheckSegmentAndStateValidityFS mp (Q p) (Q c) (Resolution po))"
proof -
  let ?s0 = "\<lparr>qstep_l = deepCopyQstep mp, doubled = False, oldNear = nr, near = nr,
                      rrtMap = m, randseed_x = rs, wld = w\<rparr>"
  let ?P = "\<lambda>s. \<forall>c p. rrtMap s c = Some (Some p) \<longrightarrow>
      m c = Some (Some p) \<or> fst (CheckSegmentAndStateValidityFS mp (Q p) (Q c) (Resolution po))"
  obtain n s' where l: "constrainedExtend_loop mp po target 0 ?s0 = (n, s')"
    by (cases "constrainedExtend_loop mp po target 0 ?s0")
  have step: "?P t'" if "?P t" "constrainedExtend_body mp po target t = Next t'" for t t'
  proof -
    from constrainedExtend_body_Next_map [OF that(2)]
    consider "rrtMap t' = rrtMap t"
      | q rs' p' where
        "constrainNear mp po (randseed_x t) (Q (near t))
           (fixedStepInterpolation mp (near t) target (qstep mp)) (Suc (polls (wld t))) = (Some q, rs', p')"
        "rrtMap t' = (rrtMap t)(Node (nextId (wld t)) q \<mapsto> Some (near t))"
      by blast
    then show ?thesis
    proof cases
      case 1
      with that(1) show ?thesis by simp
    next
      case 2
      from constrainNear_valid [OF assms(1) 2(1)]
      have "fst (CheckSegmentAndStateValidityFS mp (Q (near t)) q (Resolution po))" .
      with that(1) 2(2) show ?thesis
        by (auto split: if_splits)
    qed
  qed
  have ret: "?P t'" if "?P t" "constrainedExtend_body mp po target t = Return k t'" for t k t'
    using that(1) constrainedExtend_body_Return_map [OF that(2)] by simp
  have "?P ?s0"
    by simp
  with l have "?P s'"
  proof (rule constrainedExtend_loop_rule [where P = ?P and R = "\<lambda>n. ?P"])
    show "?P t'" if "?P t" "constrainedExtend_body mp po target t = Next t'" for t t'
      using that by (rule step)
    show "?P t'" if "?P t" "constrainedExtend_body mp po target t = Return k t'" for t k t'
      using that by (rule ret)
    show "?P t" if "?P t" for t :: "('a, 'c) extendState"
      using that .
  qed
  moreover from l assms(2) have "rrtMap s' c = Some (Some p)"
    by (simp add: constrainedExtend_def)
  ultimately show ?thesis
    by blast
qed


lemma constrainedExtend_reached:
  assumes "configurationDistanceFunc mp (Q nr) (Q target) < InputIdentDist po"
  shows "constrainedExtend mp po rs m nr target w = (nr, m, rs, tick w)"
  using assms
  by (simp add: constrainedExtend_def constrainedExtend_loop.simps [of _ _ _ 0]
      constrainedExtend_body_def maxExtendIter_def Let_def)

text \<open>
  C9. A call of \<^verbatim>\<open>constrainedExtend\<close> whose node \<^verbatim>\<open>near\<close> is already closer to the
  target than \<^verbatim>\<open>InputIdentDist\<close> sends \<^verbatim>\<open>near\<close> and leaves the tree as it was (one
  poll of the context is all it does). No iteration that leaves the function changes the
  tree, and an iteration that goes on changes it only by adding the new node of a
  projected step with \<^verbatim>\<open>near\<close> as its parent.
\<close>

theorem constrainedExtend_exits_keep_tree:
  "(configurationDistanceFunc mp (Q nr) (Q target) < InputIdentDist po \<longrightarrow>
      constrainedExtend mp po rs m nr target w = (nr, m, rs, tick w)) \<and>
   (\<forall>s n s'. constrainedExtend_body mp po target s = Return n s' \<longrightarrow> rrtMap s' = rrtMap s) \<and>
   (\<forall>s s'. constrainedExtend_body mp po target s = Next s' \<longrightarrow>
      rrtMap s' = rrtMap s \<or>
      (\<exists>q rs' p.
         constrainNear mp po (randseed_x s) (Q (near s))
           (fixedStepInterpolation mp (near s) target (qstep mp)) (Suc (polls (wld s))) = (Some q, rs', p) \<and>
         \<not> configurationDistanceFunc mp (Q (near s)) q < (InputIdentDist po) ^ 3 \<and>
         rrtMap s' = (rrtMap s)(Node (nextId (wld s)) q \<mapsto> Some (near s))))"
  using constrainedExtend_reached [of mp nr target po rs m w]
    constrainedExtend_body_Return_map [of mp po target]
    constrainedExtend_body_Next_map [of mp po target]
  by blast

theorem constrainedExtend_exits_keep_tree_witness:
  "configurationDistanceFunc linePlanner (Q (Node 0 0)) (Q (Node 1 (1 / 20))) < InputIdentDist lineOptions \<and>
   constrainedExtend linePlanner lineOptions 0 [Node 0 0 \<mapsto> None] (Node 0 0) (Node 1 (1 / 20)) world0
     = (Node 0 0, [Node 0 0 \<mapsto> None], 0, tick world0) \<and>
   constrainedExtend_body linePlanner lineOptions (Node 1 (1 / 20))
       \<lparr>qstep_l = [''x'' \<mapsto> [Fin 1]], doubled = False, oldNear = Node 0 0, near = Node 0 0,
        rrtMap = [Node 0 0 \<mapsto> None], randseed_x = 0, wld = world0\<rparr>
     = Return (Node 0 0)
       \<lparr>qstep_l = [''x'' \<mapsto> [Fin 1]], doubled = False, oldNear = Node 0 0, near = Node 0 0,
        rrtMap = [Node 0 0 \<mapsto> None], randseed_x = 0, wld = tick world0\<rparr>"
proof -
  have d: "configurationDistanceFunc linePlanner (Q (Node 0 0)) (Q (Node 1 (1 / 20)))
             < InputIdentDist lineOptions"
    by (simp add: line_simps)
  have r: "constrainedExtend_body linePlanner lineOptions (Node 1 (1 / 20))
       \<lparr>qstep_l = [''x'' \<mapsto> [Fin 1]], doubled = False, oldNear = Node 0 0, near = Node 0 0,
        rrtMap = [Node 0 0 \<mapsto> None], randseed_x = 0, wld = world0\<rparr>
     = Return (Node 0 0)
       \<lparr>qstep_l = [''x'' \<mapsto> [Fin 1]], doubled = False, oldNear = Node 0 0, near = Node 0 0,
        rrtMap = [Node 0 0 \<mapsto> None], randseed_x = 0, wld = tick world0\<rparr>"
    by (simp add: constrainedExtend_body_def Let_def line_simps)
  from d constrainedExtend_exits_keep_tree [of linePlanner "Node 0 0" "Node 1 (1 / 20)" lineOptions 0
      "[Node 0 0 \<mapsto> None]" world0]
  have "constrainedExtend linePlanner lineOptions 0 [Node 0 0 \<mapsto> None] (Node 0 0) (Node 1 (1 / 20)) world0
     = (Node 0 0, [Node 0 0 \<mapsto> None], 0, tick world0)"
    by blast
  with d r show ?thesis
    by blast
qed

text \<open>
  The local step table has no influence on a call: two runs of the loop from states that
  differ only in it send the same node and leave the same tree, generator and world.
\<close>

lemma constrainedExtend_body_qstep_l:
  assumes "sameButQstep s t"
  shows "rel_flow (=) sameButQstep (constrainedExtend_body mp po target s)
           (constrainedExtend_body mp po target t)"
  using assms
  by (auto simp: constrainedExtend_body_def sameButQstep_def Let_def
      split: option.splits prod.splits)

lemma constrainedExtend_loop_qstep_l:
  "sameButQstep s t \<Longrightarrow>
     fst (constrainedExtend_loop mp po target i s) = fst (constrainedExtend_loop mp po target i t) \<and>
     sameButQstep (snd (constrainedExtend_loop mp po target i s))
       (snd (constrainedExtend_loop mp po target i t))"
proof (induction mp po target i s arbitrary: t rule: constrainedExtend_loop.induct)
  case (1 mp po target i s)
  show ?case
  proof (cases "i < maxExtendIter")
    case False
    with "1.prems" show ?thesis
      by (simp add: constrainedExtend_loop.simps [of mp po target i] sameButQstep_def)
  next
    case True
    from constrainedExtend_body_qstep_l [OF "1.prems", of mp po target]
    show ?thesis
    proof (cases rule: flow.rel_cases)
      case (Return n s' m t')
      with True show ?thesis
        by (simp add: constrainedExtend_loop.simps [of mp po target i])
    next
      case (Next s' t')
      with True "1.IH" [OF True Next(1) Next(3)] show ?thesis
        by (simp add: constrainedExtend_loop.simps [of mp po target i])
    qed
  qed
qed

text \<open>
  C4 fails on the code. From 0 toward 10 with the step 1, the projection of the first
  step falls back to 0 and the local table is doubled; the next step is again computed
  with the planner's table (the step 1, where the doubled table gives the step 2, whose
  segment is valid), it falls back to 0 again, and the call ends with the tree
  unchanged.
\<close>

theorem constrainedExtend_doubling_unused:
  "constrainedExtend stuckPlanner lineOptions 0 [Node 0 0 \<mapsto> None] (Node 0 0) (Node 1 10) world0
     = (Node 0 0, [Node 0 0 \<mapsto> None], 2, world0\<lparr>polls := 4\<rparr>) \<and>
   fixedStepInterpolation stuckPlanner (Node 0 0) (Node 1 10) (qstep stuckPlanner) = 1 \<and>
   fixedStepInterpolation stuckPlanner (Node 0 0) (Node 1 10) (doubleQstep (round64 stuckPlanner) (qstep stuckPlanner)) = 2 \<and>
   CheckSegmentAndStateValidityFS stuckPlanner 0 2 (Resolution lineOptions) = (True, None)"
  by (simp add: run_simps stuckPlanner_def line_simps)

section \<open>Properties of smoothPath\<close>

lemmas smooth_simps = smoothPath_body_def walkCorners.simps parentChain.simps SetCorner_def
  path4_def worldS_def

lemma isChain_Cons:
  "m n = Some (Some p) \<Longrightarrow> isChain m (p # c) \<Longrightarrow> isChain m (n # p # c)"
  unfolding isChain_def
  by (auto simp: nth_Cons split: nat.splits)

lemma isChain_single: "isChain m [n]"
  by (simp add: isChain_def)

lemma parentChain_shortcutTree:
  assumes "shortcutTree rt b m"
  shows "m n \<noteq> None \<Longrightarrow>
    \<exists>c. parentChain m (Some n) acc = Some (acc @ n # c) \<and> last (n # c) = rt \<and> isChain m (n # c)"
proof (induction "ident n" arbitrary: n acc rule: less_induct)
  case less
  from less.prems obtain v where v: "m n = Some v" by blast
  show ?case
  proof (cases v)
    case None
    with v assms have "n = rt"
      by (simp add: shortcutTree_def)
    with v None show ?thesis
      by (subst parentChain.simps) (simp add: parentChain.simps [of m None] isChain_single)
  next
    case (Some p)
    with v assms have p: "m p \<noteq> None" "ident p < ident n"
      by (auto simp: shortcutTree_def)
    from less.hyps [OF p(2) p(1), of "acc @ [n]"] obtain c where
      c: "parentChain m (Some p) (acc @ [n]) = Some ((acc @ [n]) @ p # c)"
         "last (p # c) = rt" "isChain m (p # c)"
      by blast
    from v Some c(1) have "parentChain m (Some n) acc = Some (acc @ n # p # c)"
      by (subst parentChain.simps) simp
    moreover from c(2) have "last (n # p # c) = rt"
      by simp
    moreover from v Some c(3) have "isChain m (n # p # c)"
      by (simp add: isChain_Cons)
    ultimately show ?thesis
      by blast
  qed
qed

lemma constrainedExtend_body_Next_cases:
  assumes "constrainedExtend_body mp po target s = Next s'"
  shows "oldNear s' = near s \<and>
    (rrtMap s' = rrtMap s \<and> near s' = near s \<and> nextId (wld s') = nextId (wld s) \<or>
     (\<exists>q. near s' = Node (nextId (wld s)) q \<and>
          rrtMap s' = (rrtMap s)(Node (nextId (wld s)) q \<mapsto> Some (near s)) \<and>
          nextId (wld s') = Suc (nextId (wld s))))"
  using assms
  by (auto simp: constrainedExtend_body_def Let_def tick_def newBasicNode_def
      split: if_splits option.splits prod.splits)

lemma constrainedExtend_body_Return_cases:
  assumes "constrainedExtend_body mp po target s = Return n s'"
  shows "rrtMap s' = rrtMap s \<and> nextId (wld s') = nextId (wld s) \<and> (n = near s \<or> n = oldNear s)"
  using assms
  by (auto simp: constrainedExtend_body_def Let_def tick_def newBasicNode_def
      split: if_splits option.splits prod.splits)

lemma shortcutTree_insert:
  assumes "shortcutTree rt b m" "m p \<noteq> None"
  shows "shortcutTree rt (Suc b) (m(Node b q \<mapsto> Some p))"
proof -
  let ?m = "m(Node b q \<mapsto> Some p)"
  from assms(1) have bound: "\<And>n v. m n = Some v \<Longrightarrow> ident n < b"
    and rt: "m rt = Some None" and only: "\<And>n. m n = Some None \<Longrightarrow> n = rt"
    and par: "\<And>n p. m n = Some (Some p) \<Longrightarrow> m p \<noteq> None \<and> ident p < ident n"
    by (auto simp: shortcutTree_def)
  have nb: "m (Node b q) = None"
    using bound [of "Node b q"] by (cases "m (Node b q)") auto
  from assms(2) bound have pb: "ident p < b"
    by blast
  from rt nb have ne: "rt \<noteq> Node b q"
    by auto
  have 1: "?m rt = Some None"
    using rt ne by simp
  have 2: "n = rt" if "?m n = Some None" for n
    using that only by (cases "n = Node b q") auto
  have 3: "ident n < Suc b" if "?m n = Some v" for n v
    using that bound [of n v] by (cases "n = Node b q") auto
  have 4: "?m p' \<noteq> None \<and> ident p' < ident n" if "?m n = Some (Some p')" for n p'
  proof (cases "n = Node b q")
    case True
    with that have "p' = p" by simp
    with True assms(2) pb show ?thesis by simp
  next
    case False
    with that have "m n = Some (Some p')" by simp
    from par [OF this] show ?thesis by simp
  qed
  show ?thesis
    unfolding shortcutTree_def using 1 2 3 4 by blast
qed

lemma extendInv_Next:
  assumes "extendInv rt s" "constrainedExtend_body mp po target s = Next s'"
  shows "extendInv rt s'"
proof -
  from assms(1) have t: "shortcutTree rt (nextId (wld s)) (rrtMap s)"
    and n: "rrtMap s (near s) \<noteq> None"
    by (simp_all add: extendInv_def)
  from constrainedExtend_body_Next_cases [OF assms(2)]
  have o: "oldNear s' = near s" and
    c: "rrtMap s' = rrtMap s \<and> near s' = near s \<and> nextId (wld s') = nextId (wld s) \<or>
     (\<exists>q. near s' = Node (nextId (wld s)) q \<and>
          rrtMap s' = (rrtMap s)(Node (nextId (wld s)) q \<mapsto> Some (near s)) \<and>
          nextId (wld s') = Suc (nextId (wld s)))"
    by simp_all
  from c show ?thesis
  proof
    assume "rrtMap s' = rrtMap s \<and> near s' = near s \<and> nextId (wld s') = nextId (wld s)"
    with t n o show ?thesis
      by (simp add: extendInv_def)
  next
    assume "\<exists>q. near s' = Node (nextId (wld s)) q \<and>
          rrtMap s' = (rrtMap s)(Node (nextId (wld s)) q \<mapsto> Some (near s)) \<and>
          nextId (wld s') = Suc (nextId (wld s))"
    then obtain q where q: "near s' = Node (nextId (wld s)) q"
      "rrtMap s' = (rrtMap s)(Node (nextId (wld s)) q \<mapsto> Some (near s))"
      "nextId (wld s') = Suc (nextId (wld s))"
      by blast
    from shortcutTree_insert [OF t n, of q] q(2,3)
    have "shortcutTree rt (nextId (wld s')) (rrtMap s')"
      by simp
    moreover from q(1,2) have "rrtMap s' (near s') \<noteq> None"
      by simp
    moreover from q(2) o n have "rrtMap s' (oldNear s') \<noteq> None"
      by simp
    ultimately show ?thesis
      by (simp add: extendInv_def)
  qed
qed

lemma constrainedExtend_shortcut:
  fixes mp :: "('q, 'v, 'r) planner"
  assumes "ident rt < nextId w"
    and "constrainedExtend mp po rs [rt \<mapsto> None] rt target w = (reached, m', g, w')"
  shows "shortcutTree rt (nextId w') m' \<and> m' reached \<noteq> None"
proof -
  let ?s0 = "\<lparr>qstep_l = deepCopyQstep mp, doubled = False, oldNear = rt, near = rt,
               rrtMap = [rt \<mapsto> None], randseed_x = rs, wld = w\<rparr>"
  let ?R = "\<lambda>n (s :: ('q, 'r) extendState).
              shortcutTree rt (nextId (wld s)) (rrtMap s) \<and> rrtMap s n \<noteq> None"
  obtain n s' where l: "constrainedExtend_loop mp po target 0 ?s0 = (n, s')"
    by (cases "constrainedExtend_loop mp po target 0 ?s0")
  from assms(1) have "extendInv rt ?s0"
    by (simp add: extendInv_def shortcutTree_def)
  with l have "?R n s'"
  proof (rule constrainedExtend_loop_rule [where P = "extendInv rt" and R = ?R])
    show "extendInv rt t'"
      if "extendInv rt t" "constrainedExtend_body mp po target t = Next t'" for t t'
      using that by (rule extendInv_Next)
    show "?R k t'"
      if "extendInv rt t" "constrainedExtend_body mp po target t = Return k t'" for t k t'
    proof -
      from constrainedExtend_body_Return_cases [OF that(2)]
      have "rrtMap t' = rrtMap t" "nextId (wld t') = nextId (wld t)" "k = near t \<or> k = oldNear t"
        by simp_all
      with that(1) show ?thesis
        unfolding extendInv_def by metis
    qed
    show "?R (oldNear t) t" if "extendInv rt t" for t
      using that by (simp add: extendInv_def)
  qed
  with l assms(2) show ?thesis
    by (simp add: constrainedExtend_def)
qed

lemma walkCorners_range:
  "walkCorners crn path n j c h = (j', h') \<Longrightarrow> j \<le> j' \<and> (j' = j \<or> j' < length path)"
proof (induction crn path n j c h rule: walkCorners.induct)
  case (1 crn path n j c h)
  show ?case
  proof (cases "(c \<noteq> n \<or> \<not> crn (ident (path ! j))) \<and> j < length path - 1")
    case False
    have "walkCorners crn path n j c h = (j, h)"
      by (subst walkCorners.simps) (rule if_not_P [OF False])
    with "1.prems" show ?thesis
      by simp
  next
    case True
    then have jl: "Suc j < length path" by linarith
    show ?thesis
    proof (cases "c < n \<and> crn (ident (path ! Suc j))")
      case hit: True
      have "walkCorners crn path n j c h
              = walkCorners crn path n (Suc j) (Suc c) (h @ [path ! Suc j])"
        by (subst walkCorners.simps) (simp only: if_P [OF True] if_P [OF hit])
      with "1.prems"
      have "walkCorners crn path n (Suc j) (Suc c) (h @ [path ! Suc j]) = (j', h')"
        by simp
      from "1.IH"(1) [OF True hit this] jl show ?thesis
        by auto
    next
      case nohit: False
      have "walkCorners crn path n j c h = walkCorners crn path n (Suc j) c h"
        by (subst walkCorners.simps) (simp only: if_P [OF True] if_not_P [OF nohit])
      with "1.prems"
      have "walkCorners crn path n (Suc j) c h = (j', h')"
        by simp
      from "1.IH"(2) [OF True nohit this] jl show ?thesis
        by auto
    qed
  qed
qed

text \<open>
  C5 (as amended). A successful shortcut attempt of the smoother, from the index \<open>i\<close>
  that the generator gives to the index \<open>j\<close> that the walk over the corners reaches
  (\<open>i < j\<close>), replaces the sub-list \<open>path[i .. j]\<close> by the parent chain of the reached
  node in the shortcut tree: the chain starts with the reached node, which takes the place
  of \<open>path[i]\<close>, and ends with \<open>path[j]\<close>; the entries before \<open>i\<close> and after \<open>j\<close> are
  kept. The corner flags of the corners passed are cleared, and then the flags of the
  first and the last node of the chain are set. The nodes of the path are older than the
  nodes that the attempt creates.
\<close>

theorem smoothPath_splice:
  fixes mp :: "('q, 'v, 'r) planner"
  assumes nc: "\<not> ctxDone mp (polls (wld_s s))"
    and ri: "randIntn mp (randseed (wld_s s)) (int (length (inputSteps s)) - 2) = (int i, g)"
    and ir: "i + 2 < length (inputSteps s)"
    and wk: "walkCorners (corner (wld_s s)) (inputSteps s) numCornersToPass (Suc i) 0 []
               = (j, hitCorners)"
    and hc: "hitCorners \<noteq> []"
    and ce: "constrainedExtend mp po g [inputSteps s ! j \<mapsto> None] (inputSteps s ! j)
               (inputSteps s ! i) ((tick (wld_s s))\<lparr>randseed := g\<rparr>)
               = (reached, shortcutGoal, g', w')"
    and ds: "configurationDistanceFunc mp (Q (inputSteps s ! i)) (Q reached) < InputIdentDist po"
    and fr: "ident (inputSteps s ! j) < nextId (wld_s s)"
  shows "\<exists>chain.
      smoothPath_body mp po numCornersToPass s =
        Some (Next \<lparr>inputSteps = take i (inputSteps s) @ chain @ drop (Suc j) (inputSteps s),
                    wld_s = SetCorner (last chain) True (SetCorner (hd chain) True
                              (foldl (\<lambda>w hitCorner. SetCorner hitCorner False w)
                                 (w'\<lparr>randseed := g'\<rparr>) hitCorners))\<rparr>) \<and>
      chain \<noteq> [] \<and> hd chain = reached \<and> last chain = inputSteps s ! j \<and>
      isChain shortcutGoal chain \<and> i < j \<and> j < length (inputSteps s)"
proof -
  let ?path = "inputSteps s"
  from fr have "ident (?path ! j) < nextId ((tick (wld_s s))\<lparr>randseed := g\<rparr>)"
    by (simp add: tick_def)
  from constrainedExtend_shortcut [OF this ce]
  have tree: "shortcutTree (?path ! j) (nextId w') shortcutGoal" and dom: "shortcutGoal reached \<noteq> None"
    by simp_all
  from parentChain_shortcutTree [OF tree dom, of "take i ?path"] obtain c where
    c: "parentChain shortcutGoal (Some reached) (take i ?path) = Some (take i ?path @ reached # c)"
       "last (reached # c) = ?path ! j" "isChain shortcutGoal (reached # c)"
    by blast
  from walkCorners_range [OF wk] ir have j: "i < j" "j < length ?path"
    by auto
  from ir have len: "length (take i ?path) = i"
    by simp
  have at_i: "(take i ?path @ reached # c) ! i = reached"
    using len by (simp add: nth_append)
  have at_last: "(take i ?path @ reached # c) ! (length (take i ?path @ reached # c) - 1)
                   = last (reached # c)"
    using last_conv_nth [of "take i ?path @ reached # c"] by simp
  have "smoothPath_body mp po numCornersToPass s =
        Some (Next \<lparr>inputSteps = take i ?path @ (reached # c) @ drop (Suc j) ?path,
                    wld_s = SetCorner (last (reached # c)) True (SetCorner (hd (reached # c)) True
                              (foldl (\<lambda>w hitCorner. SetCorner hitCorner False w)
                                 (w'\<lparr>randseed := g'\<rparr>) hitCorners))\<rparr>)"
    unfolding smoothPath_body_def
    using nc ri wk hc ce ds c(1) at_i at_last
    by (simp add: Let_def tick_def del: last.simps)
  with c(2,3) j show ?thesis
    by (intro exI [of _ "reached # c"]) simp
qed

theorem smoothPath_splice_witness:
  "\<exists>chain w.
     smoothPath_body linePlanner lineOptions 2 \<lparr>inputSteps = path4, wld_s = worldS\<rparr>
       = Some (Next \<lparr>inputSteps = chain, wld_s = w\<rparr>) \<and>
     hd chain = Node 6 0 \<and> last chain = Node 3 3 \<and> chain \<noteq> []"
proof -
  let ?s = "\<lparr>inputSteps = path4, wld_s = worldS\<rparr>"
  let ?X = "constrainedExtend linePlanner lineOptions 1 [inputSteps ?s ! 3 \<mapsto> None]
              (inputSteps ?s ! 3) (inputSteps ?s ! 0) ((tick (wld_s ?s))\<lparr>randseed := 1\<rparr>)"
  have r: "fst ?X = Node 6 0"
    by (simp add: smooth_simps run_simps line_simps)
  have h1: "\<not> ctxDone linePlanner (polls (wld_s ?s))"
    by (simp add: linePlanner_def)
  have h2: "randIntn linePlanner (randseed (wld_s ?s)) (int (length (inputSteps ?s)) - 2) = (int 0, 1)"
    by (simp add: linePlanner_def smooth_simps)
  have h3: "0 + 2 < length (inputSteps ?s)"
    by (simp add: path4_def)
  have h4: "walkCorners (corner (wld_s ?s)) (inputSteps ?s) 2 (Suc 0) 0 [] = (3, [Node 2 2])"
    by (simp add: smooth_simps)
  have h5: "[Node 2 2] \<noteq> ([] :: real node list)"
    by simp
  have h6: "?X = (fst ?X, fst (snd ?X), fst (snd (snd ?X)), snd (snd (snd ?X)))"
    by simp
  have h7: "configurationDistanceFunc linePlanner (Q (inputSteps ?s ! 0)) (Q (fst ?X))
            < InputIdentDist lineOptions"
    unfolding r by (simp add: line_simps path4_def)
  have h8: "ident (inputSteps ?s ! 3) < nextId (wld_s ?s)"
    by (simp add: smooth_simps)
  from smoothPath_splice [where mp = linePlanner and s = ?s and i = 0 and g = 1
      and numCornersToPass = 2 and j = 3 and hitCorners = "[Node 2 2]" and po = lineOptions
      and reached = "fst ?X" and shortcutGoal = "fst (snd ?X)" and g' = "fst (snd (snd ?X))"
      and w' = "snd (snd (snd ?X))", OF h1 h2 h3 h4 h5 h6 h7 h8]
  obtain chain w where
    "smoothPath_body linePlanner lineOptions 2 ?s
       = Some (Next \<lparr>inputSteps = take 0 (inputSteps ?s) @ chain @ drop (Suc 3) (inputSteps ?s),
                      wld_s = w\<rparr>)"
    "chain \<noteq> []" "hd chain = fst ?X" "last chain = inputSteps ?s ! 3"
    by blast
  with r show ?thesis
    by (simp add: path4_def)
qed

text \<open>
  C5 as stated fails: the attempt from index 0 to index 3 succeeds, and the node at index 0
  of the path is not kept: its place is taken by the node that the extension has reached.
\<close>

theorem smoothPath_splice_counterexample:
  "(case smoothPath_body linePlanner lineOptions 2 \<lparr>inputSteps = path4, wld_s = worldS\<rparr> of
      Some (Next s') \<Rightarrow> inputSteps s'
    | _ \<Rightarrow> []) = [Node 6 0, Node 5 1, Node 4 2, Node 3 3] \<and>
   path4 ! 0 = Node 0 0 \<and>
   Node 0 0 \<notin> set [Node 6 0, Node 5 1, Node 4 2, Node 3 (3::real)]"
  by (simp add: smooth_simps run_simps line_simps)


text \<open>
  C10. On a path of fewer than four nodes, and on every path when the budget
  \<^verbatim>\<open>min(len*len, SmoothIter)/2\<close> is zero, \<^verbatim>\<open>smoothPath\<close> makes no attempt and returns the
  path as it is: the same nodes in the same order, and the same world, corner flags
  included.
\<close>

theorem smoothPath_short:
  assumes "length path < 4 \<or>
           goDiv (min (int (length path) * int (length path)) (SmoothIter po)) 2 = 0"
  shows "smoothPath mp po path w = Some (path, w)"
proof -
  have "smoothPath_loop mp po (min (int (length path) * int (length path)) (SmoothIter po)) n 0
          \<lparr>inputSteps = path, wld_s = w\<rparr> = Some (Inr \<lparr>inputSteps = path, wld_s = w\<rparr>)" for n
    using assms by (subst smoothPath_loop.simps) auto
  then show ?thesis
    by (simp add: smoothPath_def Let_def)
qed

theorem smoothPath_short_witness:
  "smoothPath linePlanner lineOptions [Node 0 0, Node 1 1, Node 2 2] worldS
     = Some ([Node 0 0, Node 1 1, Node 2 2], worldS) \<and>
   goDiv (min (int (length path4) * int (length path4)) (SmoothIter (lineOptions\<lparr>SmoothIter := 1\<rparr>))) 2 = 0 \<and>
   smoothPath linePlanner (lineOptions\<lparr>SmoothIter := 1\<rparr>) path4 worldS = Some (path4, worldS)"
  using smoothPath_short [of "[Node 0 0, Node 1 1, Node 2 (2::real)]" lineOptions linePlanner worldS]
    smoothPath_short [of path4 "lineOptions\<lparr>SmoothIter := 1\<rparr>" linePlanner worldS]
  by (simp add: path4_def lineOptions_def goDiv_def)

section \<open>Properties of the outer loop\<close>

lemmas rrt_simps = rrt_body_def rrt_finish_def tryExtend_def failure_def map1_r_def map2_r_def
  setMaps_def SetCorner_def newConfigurationNode_def nearestAmong_def linePath_def
  world3_def runStart_def

text \<open>\<^verbatim>\<open>constrainedExtend\<close> only adds nodes to its tree, so the two trees stay non-empty.\<close>

lemma constrainedExtend_dom:
  fixes mp :: "('q, 'v, 'r) planner"
  assumes "constrainedExtend mp po rs m nr target w = (n, m', rs', w')"
  shows "dom m \<subseteq> dom m'"
proof -
  let ?s0 = "\<lparr>qstep_l = deepCopyQstep mp, doubled = False, oldNear = nr, near = nr,
                      rrtMap = m, randseed_x = rs, wld = w\<rparr>"
  let ?P = "\<lambda>s :: ('q, 'r) extendState. dom m \<subseteq> dom (rrtMap s)"
  obtain k s' where l: "constrainedExtend_loop mp po target 0 ?s0 = (k, s')"
    by (cases "constrainedExtend_loop mp po target 0 ?s0")
  have "?P ?s0" by simp
  with l have "?P s'"
  proof (rule constrainedExtend_loop_rule [where P = ?P and R = "\<lambda>n. ?P"])
    show "?P t'" if "?P t" "constrainedExtend_body mp po target t = Next t'" for t t'
      using that(1) constrainedExtend_body_Next_map [OF that(2)] by auto
    show "?P t'" if "?P t" "constrainedExtend_body mp po target t = Return k t'" for t k t'
      using that(1) constrainedExtend_body_Return_map [OF that(2)] by simp
    show "?P t" if "?P t" for t :: "('q, 'r) extendState"
      using that .
  qed
  with l assms show ?thesis
    by (simp add: constrainedExtend_def)
qed

lemma nonempty_mono: "m \<noteq> Map.empty \<Longrightarrow> dom m \<subseteq> dom m' \<Longrightarrow> m' \<noteq> Map.empty"
  by auto

lemma setMaps_nonempty:
  assumes "treesNonempty s" "dom (map1_r s) \<subseteq> dom m1" "dom (map2_r s) \<subseteq> dom m2"
  shows "treesNonempty ((setMaps m1 m2 s)\<lparr>wld_r := w\<rparr>)"
proof (cases "swapped s")
  case True
  with assms have "m1 \<noteq> Map.empty" "m2 \<noteq> Map.empty"
    by (auto simp: treesNonempty_def map1_r_def map2_r_def intro: nonempty_mono)
  with True show ?thesis
    by (simp add: treesNonempty_def setMaps_def)
next
  case False
  with assms have "m1 \<noteq> Map.empty" "m2 \<noteq> Map.empty"
    by (auto simp: treesNonempty_def map1_r_def map2_r_def intro: nonempty_mono)
  with False show ?thesis
    by (simp add: treesNonempty_def setMaps_def)
qed

lemma tryExtend_nonempty:
  assumes "tryExtend mp po target s = (r, s')" "treesNonempty s"
  shows "treesNonempty s'"
proof (cases "ctxDone mp (polls (wld_r s))")
  case True
  with assms show ?thesis
    by (auto simp: tryExtend_def Let_def treesNonempty_def)
next
  case False
  obtain r1 g1 where g1: "randInt mp (randseed (tick (wld_r s))) = (r1, g1)"
    by (cases "randInt mp (randseed (tick (wld_r s)))")
  obtain r2 g2 where g2: "randInt mp g1 = (r2, g2)"
    by (cases "randInt mp g1")
  let ?w = "(tick (wld_r s))\<lparr>randseed := g2\<rparr>"
  show ?thesis
  proof (cases "nearestNeighbor mp target (map1_r s)")
    case None
    with False g1 g2 assms show ?thesis
      by (auto simp: tryExtend_def Let_def treesNonempty_def)
  next
    case n1: (Some n1)
    show ?thesis
    proof (cases "nearestNeighbor mp target (map2_r s)")
      case None
      with False g1 g2 n1 assms show ?thesis
        by (auto simp: tryExtend_def Let_def treesNonempty_def)
    next
      case n2: (Some n2)
      obtain a m1 x1 w1 where
        e1: "constrainedExtend mp po (randNew mp r1) (map1_r s) n1 target ?w = (a, m1, x1, w1)"
        by (cases "constrainedExtend mp po (randNew mp r1) (map1_r s) n1 target ?w")
      obtain b m2 x2 w2 where
        e2: "constrainedExtend mp po (randNew mp r2) (map2_r s) n2 target w1 = (b, m2, x2, w2)"
        by (cases "constrainedExtend mp po (randNew mp r2) (map2_r s) n2 target w1")
      from False g1 g2 n1 n2 e1 e2 assms(1)
      have "s' = (setMaps m1 m2 s)\<lparr>wld_r := SetCorner b True (SetCorner a True w2)\<rparr>"
        by (simp add: tryExtend_def Let_def)
      with setMaps_nonempty [OF assms(2) constrainedExtend_dom [OF e1] constrainedExtend_dom [OF e2]]
      show ?thesis
        by simp
    qed
  qed
qed

lemma rrt_finish_Next:
  assumes "rrt_finish mp po i a b d s = Next s'"
  shows "rmaps s' = rmaps s \<and> \<not> d \<le> InputIdentDist po"
  using assms
  by (auto simp: rrt_finish_def Let_def newConfigurationNode_def newBasicNode_def
      split: if_splits prod.splits sum.splits)

lemma rrt_body_nonempty:
  assumes "rrt_body mp po i s = Next s'" "treesNonempty s"
  shows "treesNonempty s'"
proof -
  have fin: "treesNonempty s'" if "rrt_finish mp po i a b d t = Next s'" "treesNonempty t" for a b d t
    using rrt_finish_Next [OF that(1)] that(2) by (simp add: treesNonempty_def)
  from assms(1) have nc: "\<not> ctxDone mp (polls (wld_r s))"
    by (auto simp: rrt_body_def split: if_splits)
  let ?s = "s\<lparr>wld_r := tick (wld_r s)\<rparr>"
  have ne: "treesNonempty ?s"
    using assms(2) by (simp add: treesNonempty_def)
  obtain x s1 where t1: "tryExtend mp po (target_r s) ?s = (x, s1)"
    by (cases "tryExtend mp po (target_r s) ?s")
  from tryExtend_nonempty [OF t1 ne] have ne1: "treesNonempty s1" .
  from assms(1) nc t1 obtain a b where x: "x = Reached a b"
    by (cases x) (auto simp: rrt_body_def)
  show ?thesis
  proof (cases "configurationDistanceFunc mp (Q a) (Q b) > InputIdentDist po")
    case False
    with assms(1) nc t1 x
    have "rrt_finish mp po i a b (configurationDistanceFunc mp (Q a) (Q b)) s1 = Next s'"
      by (simp add: rrt_body_def Let_def)
    from fin [OF this ne1] show ?thesis .
  next
    case True
    with assms(1) nc t1 x obtain tc where tc: "InterpolateFS mp (Q a) (Q b) (1 / 2) = Inr tc"
      by (cases "InterpolateFS mp (Q a) (Q b) (1 / 2)") (auto simp: rrt_body_def Let_def)
    obtain t w where nw: "newConfigurationNode tc (wld_r s1) = (t, w)"
      by (cases "newConfigurationNode tc (wld_r s1)")
    let ?s1 = "s1\<lparr>target_r := t, wld_r := w\<rparr>"
    have ne1': "treesNonempty ?s1"
      using ne1 by (simp add: treesNonempty_def)
    obtain y s2 where t2: "tryExtend mp po t ?s1 = (y, s2)"
      by (cases "tryExtend mp po t ?s1")
    from tryExtend_nonempty [OF t2 ne1'] have ne2: "treesNonempty s2" .
    from assms(1) nc t1 x True tc nw t2 obtain a' b' where y: "y = Reached a' b'"
      by (cases y) (auto simp: rrt_body_def Let_def)
    with assms(1) nc t1 x True tc nw t2
    have "rrt_finish mp po i a' b' (configurationDistanceFunc mp (Q a') (Q b')) s2 = Next s'"
      by (simp add: rrt_body_def Let_def)
    from fin [OF this ne2] show ?thesis .
  qed
qed

lemma rrt_iterations_nonempty:
  "rrt_iterations mp po i n s = Some s' \<Longrightarrow> treesNonempty s \<Longrightarrow> treesNonempty s'"
proof (induction n arbitrary: i s)
  case 0
  then show ?case by simp
next
  case (Suc n)
  from Suc.prems(1) obtain s1 where b: "rrt_body mp po i s = Next s1"
    and r: "rrt_iterations mp po (Suc i) n s1 = Some s'"
    by (cases "rrt_body mp po i s") auto
  from Suc.IH [OF r rrt_body_nonempty [OF b Suc.prems(2)]] show ?case .
qed

lemma rrt_loop_iterations:
  "rrt_iterations mp po i n s = Some s' \<Longrightarrow> n = nat (PlanIter po - int i) \<Longrightarrow>
     rrt_loop mp po i s = (failure ErrPlannerFailed s', s')"
proof (induction n arbitrary: i s)
  case 0
  then show ?case
    by (subst rrt_loop.simps) simp
next
  case (Suc n)
  from Suc.prems(1) obtain s1 where b: "rrt_body mp po i s = Next s1"
    and r: "rrt_iterations mp po (Suc i) n s1 = Some s'"
    by (cases "rrt_body mp po i s") auto
  from Suc.prems(2) have lt: "int i < PlanIter po" and n: "n = nat (PlanIter po - int (Suc i))"
    by linarith+
  from Suc.IH [OF r n] b lt show ?case
    by (subst rrt_loop.simps) simp
qed

text \<open>
  C2. In an iteration of the outer loop in which the context is not cancelled and the first
  \<^verbatim>\<open>tryExtend\<close> gives two reached nodes: when their distance is at most
  \<^verbatim>\<open>InputIdentDist\<close>, the iteration sends the solution whose path is extracted from the
  two trees at these two nodes. When their distance exceeds \<^verbatim>\<open>InputIdentDist\<close>, the target
  becomes a new node at the interpolation of the two reached configurations at 1/2, and
  \<^verbatim>\<open>tryExtend\<close> runs once more from the state that the first one has left; if that gives
  two reached nodes, their distance decides: when it is at most \<^verbatim>\<open>InputIdentDist\<close> the
  iteration sends the solution extracted at the new pair, from the state that the second
  \<^verbatim>\<open>tryExtend\<close> has left, and otherwise the iteration sends no path.
\<close>

theorem rrt_body_connection:
  assumes "\<not> ctxDone mp (polls (wld_r s))"
    and "tryExtend mp po (target_r s) (s\<lparr>wld_r := tick (wld_r s)\<rparr>) = (Reached r1 r2, s1)"
  shows
    "(configurationDistanceFunc mp (Q r1) (Q r2) \<le> InputIdentDist po \<longrightarrow>
        rrt_body mp po i s =
          Return (Some \<lparr>steps = Some (extractPath mp (startMap (rmaps s1)) (goalMap (rmaps s1))
                                          (r1, r2) True),
                        err = None, maps = Some (rmaps s1)\<rparr>) s1) \<and>
     (configurationDistanceFunc mp (Q r1) (Q r2) > InputIdentDist po \<longrightarrow>
        (\<forall>targetConf r1' r2' s2.
           InterpolateFS mp (Q r1) (Q r2) (1 / 2) = Inr targetConf \<and>
           tryExtend mp po (fst (newConfigurationNode targetConf (wld_r s1)))
             (s1\<lparr>target_r := fst (newConfigurationNode targetConf (wld_r s1)),
                 wld_r := snd (newConfigurationNode targetConf (wld_r s1))\<rparr>)
             = (Reached r1' r2', s2) \<longrightarrow>
           (configurationDistanceFunc mp (Q r1') (Q r2') \<le> InputIdentDist po \<longrightarrow>
              rrt_body mp po i s =
                Return (Some \<lparr>steps = Some (extractPath mp (startMap (rmaps s2)) (goalMap (rmaps s2))
                                                (r1', r2') True),
                              err = None, maps = Some (rmaps s2)\<rparr>) s2) \<and>
           (configurationDistanceFunc mp (Q r1') (Q r2') > InputIdentDist po \<longrightarrow>
              (\<forall>sol t. rrt_body mp po i s = Return (Some sol) t \<longrightarrow> steps sol = None))))"
  using assms
  by (auto simp: rrt_body_def rrt_finish_def failure_def Let_def
      split: prod.splits sum.splits)

text \<open>
  A connection after the first \<^verbatim>\<open>tryExtend\<close> (the two roots are 1/20 apart), and a
  connection after the second one (from the target -1/2 the start tree cannot grow and the
  goal tree stops at 1/2; both trees then reach the halfway point 1/4).
\<close>

theorem rrt_body_connection_witness:
  "(case rrt_body linePlanner lineOptions 0 (runStart (1 / 20) (1 / 40)) of
       Return (Some sol) t \<Rightarrow> steps sol | _ \<Rightarrow> None) = Some [Node 0 0] \<and>
   (case rrt_body wallPlanner lineOptions 0 (runStart (3 / 2) (- 1 / 2)) of
       Return (Some sol) t \<Rightarrow> steps sol | _ \<Rightarrow> None)
     = Some [Node 0 0, Node 5 (1 / 4), Node 3 (1 / 2), Node 1 (3 / 2)]"
proof -
  define sA :: "(real, nat) runState" where "sA = runStart (1 / 20) (1 / 40)"
  define XA where
    "XA = tryExtend linePlanner lineOptions (target_r sA) (sA\<lparr>wld_r := tick (wld_r sA)\<rparr>)"
  have a1: "\<not> ctxDone linePlanner (polls (wld_r sA))"
    by (simp add: linePlanner_def)
  have "fst XA = Reached (Node 0 0) (Node 1 (1 / 20))"
    by (simp add: XA_def sA_def rrt_simps run_simps line_simps)
  then have "XA = (Reached (Node 0 0) (Node 1 (1 / 20)), snd XA)"
    by (cases XA) simp
  then have a2: "tryExtend linePlanner lineOptions (target_r sA) (sA\<lparr>wld_r := tick (wld_r sA)\<rparr>)
                   = (Reached (Node 0 0) (Node 1 (1 / 20)), snd XA)"
    unfolding XA_def [symmetric] .
  have a3: "configurationDistanceFunc linePlanner (Q (Node 0 0)) (Q (Node 1 (1 / 20)))
              \<le> InputIdentDist lineOptions"
    by (simp add: line_simps)
  have a4: "extractPath linePlanner (startMap (rmaps (snd XA))) (goalMap (rmaps (snd XA)))
              (Node 0 0, Node 1 (1 / 20)) True = [Node 0 0]"
    by (simp add: XA_def sA_def rrt_simps run_simps line_simps eval_nat_numeral)
  note rrt_body_connection [OF a1 a2, of 0, THEN conjunct1, THEN mp, OF a3]
  with a4 have A: "(case rrt_body linePlanner lineOptions 0 (runStart (1 / 20) (1 / 40)) of
       Return (Some sol) t \<Rightarrow> steps sol | _ \<Rightarrow> None) = Some [Node 0 0]"
    by (simp add: sA_def)
  define sB :: "(real, nat) runState" where "sB = runStart (3 / 2) (- 1 / 2)"
  define XB where
    "XB = tryExtend wallPlanner lineOptions (target_r sB) (sB\<lparr>wld_r := tick (wld_r sB)\<rparr>)"
  define YB where
    "YB = tryExtend wallPlanner lineOptions (fst (newConfigurationNode (1 / 4 :: real) (wld_r (snd XB))))
            ((snd XB)\<lparr>target_r := fst (newConfigurationNode (1 / 4 :: real) (wld_r (snd XB))),
                       wld_r := snd (newConfigurationNode (1 / 4 :: real) (wld_r (snd XB)))\<rparr>)"
  have b1: "\<not> ctxDone wallPlanner (polls (wld_r sB))"
    by (simp add: wallPlanner_def linePlanner_def)
  have "fst XB = Reached (Node 0 0) (Node 3 (1 / 2))"
    by (simp add: XB_def sB_def rrt_simps run_simps wallPlanner_def line_simps)
  then have "XB = (Reached (Node 0 0) (Node 3 (1 / 2)), snd XB)"
    by (cases XB) simp
  then have b2: "tryExtend wallPlanner lineOptions (target_r sB) (sB\<lparr>wld_r := tick (wld_r sB)\<rparr>)
                   = (Reached (Node 0 0) (Node 3 (1 / 2)), snd XB)"
    unfolding XB_def [symmetric] .
  have b3: "configurationDistanceFunc wallPlanner (Q (Node 0 0)) (Q (Node 3 (1 / 2)))
              > InputIdentDist lineOptions"
    by (simp add: wallPlanner_def line_simps)
  have b4: "InterpolateFS wallPlanner (Q (Node 0 0)) (Q (Node 3 (1 / 2))) (1 / 2) = Inr (1 / 4)"
    by (simp add: wallPlanner_def line_simps)
  have "fst YB = Reached (Node 5 (1 / 4)) (Node 6 (1 / 4))"
    by (simp add: YB_def XB_def sB_def rrt_simps run_simps wallPlanner_def line_simps)
  then have "YB = (Reached (Node 5 (1 / 4)) (Node 6 (1 / 4)), snd YB)"
    by (cases YB) simp
  then have b5:
    "tryExtend wallPlanner lineOptions (fst (newConfigurationNode (1 / 4 :: real) (wld_r (snd XB))))
            ((snd XB)\<lparr>target_r := fst (newConfigurationNode (1 / 4 :: real) (wld_r (snd XB))),
                       wld_r := snd (newConfigurationNode (1 / 4 :: real) (wld_r (snd XB)))\<rparr>)
       = (Reached (Node 5 (1 / 4)) (Node 6 (1 / 4)), snd YB)"
    unfolding YB_def [symmetric] .
  have b6: "configurationDistanceFunc wallPlanner (Q (Node 5 (1 / 4))) (Q (Node 6 (1 / 4)))
              \<le> InputIdentDist lineOptions"
    by (simp add: wallPlanner_def line_simps)
  have b7: "extractPath wallPlanner (startMap (rmaps (snd YB))) (goalMap (rmaps (snd YB)))
              (Node 5 (1 / 4), Node 6 (1 / 4)) True
            = [Node 0 0, Node 5 (1 / 4), Node 3 (1 / 2), Node 1 (3 / 2)]"
    by (simp add: YB_def XB_def sB_def rrt_simps run_simps wallPlanner_def line_simps
        eval_nat_numeral)
  note rrt_body_connection [OF b1 b2, of 0, THEN conjunct2, THEN mp, OF b3, THEN spec, THEN spec,
      THEN spec, THEN spec, THEN mp, OF conjI [OF b4 b5], THEN conjunct1, THEN mp, OF b6]
  with b7 have "(case rrt_body wallPlanner lineOptions 0 (runStart (3 / 2) (- 1 / 2)) of
       Return (Some sol) t \<Rightarrow> steps sol | _ \<Rightarrow> None)
     = Some [Node 0 0, Node 5 (1 / 4), Node 3 (1 / 2), Node 1 (3 / 2)]"
    by (simp add: sB_def)
  with A show ?thesis
    by (rule conjI)
qed

text \<open>
  C6. When none of the \<^verbatim>\<open>PlanIter\<close> iterations of the outer loop sends a solution (none
  connects the two trees, and none fails), the runner sends the error
  \<^verbatim>\<open>errPlannerFailed\<close> together with the two trees as the iterations have left them, and
  neither tree is empty when neither was at the start.
\<close>

theorem rrt_loop_exhausted:
  assumes "rrt_iterations mp po 0 (nat (PlanIter po)) s \<noteq> None"
    and "treesNonempty s"
  shows "\<exists>s'. rrt_iterations mp po 0 (nat (PlanIter po)) s = Some s' \<and>
      rrt_loop mp po 0 s =
        (Some \<lparr>steps = None, err = Some ErrPlannerFailed, maps = Some (rmaps s')\<rparr>, s') \<and>
      startMap (rmaps s') \<noteq> Map.empty \<and> goalMap (rmaps s') \<noteq> Map.empty"
proof -
  from assms(1) obtain s' where s': "rrt_iterations mp po 0 (nat (PlanIter po)) s = Some s'"
    by blast
  from rrt_loop_iterations [OF s'] have "rrt_loop mp po 0 s = (failure ErrPlannerFailed s', s')"
    by simp
  moreover from rrt_iterations_nonempty [OF s' assms(2)] have "treesNonempty s'" .
  ultimately show ?thesis
    using s' by (simp add: failure_def treesNonempty_def)
qed

theorem rrt_loop_exhausted_witness:
  "treesNonempty (runStart (3 / 2) (3 / 4)) \<and>
   fst (rrt_loop closedPlanner lineOptions 0 (runStart (3 / 2) (3 / 4))) =
     Some \<lparr>steps = None, err = Some ErrPlannerFailed,
           maps = Some \<lparr>startMap = [Node 0 0 \<mapsto> None], goalMap = [Node 1 (3 / 2) \<mapsto> None],
                        optNode = Node 1 (3 / 2)\<rparr>\<rparr>"
proof -
  let ?s = "runStart (3 / 2) (3 / 4)"
  have ne: "treesNonempty ?s"
    by (simp add: treesNonempty_def runStart_def)
  have it: "rrt_iterations closedPlanner lineOptions 0 (nat (PlanIter lineOptions)) ?s \<noteq> None"
    by (simp add: rrt_simps run_simps closedPlanner_def line_simps eval_nat_numeral)
  have m: "rmaps (the (rrt_iterations closedPlanner lineOptions 0 (nat (PlanIter lineOptions)) ?s))
             = \<lparr>startMap = [Node 0 0 \<mapsto> None], goalMap = [Node 1 (3 / 2) \<mapsto> None],
                optNode = Node 1 (3 / 2)\<rparr>"
    by (simp add: rrt_simps run_simps closedPlanner_def line_simps eval_nat_numeral)
  from rrt_loop_exhausted [OF it ne] obtain s' where
    "rrt_iterations closedPlanner lineOptions 0 (nat (PlanIter lineOptions)) ?s = Some s'"
    "rrt_loop closedPlanner lineOptions 0 ?s =
        (Some \<lparr>steps = None, err = Some ErrPlannerFailed, maps = Some (rmaps s')\<rparr>, s')"
    by blast
  with m ne show ?thesis
    by simp
qed

text \<open>\<^verbatim>\<open>constrainedExtend\<close> draws from the generator it is given, and never from
  \<^verbatim>\<open>mp.randseed\<close>.\<close>

lemma constrainedExtend_body_randseed:
  "constrainedExtend_body mp po target s = Next s' \<Longrightarrow> randseed (wld s') = randseed (wld s)"
  "constrainedExtend_body mp po target s = Return n s' \<Longrightarrow> randseed (wld s') = randseed (wld s)"
  by (auto simp: constrainedExtend_body_def Let_def tick_def newBasicNode_def
      split: if_splits option.splits prod.splits)

lemma constrainedExtend_randseed:
  fixes mp :: "('q, 'v, 'r) planner"
  assumes "constrainedExtend mp po rs m nr target w = (n, m', rs', w')"
  shows "randseed w' = randseed w"
proof -
  let ?s0 = "\<lparr>qstep_l = deepCopyQstep mp, doubled = False, oldNear = nr, near = nr,
                      rrtMap = m, randseed_x = rs, wld = w\<rparr>"
  let ?P = "\<lambda>s :: ('q, 'r) extendState. randseed (wld s) = randseed w"
  obtain k s' where l: "constrainedExtend_loop mp po target 0 ?s0 = (k, s')"
    by (cases "constrainedExtend_loop mp po target 0 ?s0")
  have "?P ?s0" by simp
  with l have "?P s'"
  proof (rule constrainedExtend_loop_rule [where P = ?P and R = "\<lambda>n. ?P"])
    show "?P t'" if "?P t" "constrainedExtend_body mp po target t = Next t'" for t t'
      using that(1) constrainedExtend_body_randseed(1) [OF that(2)] by simp
    show "?P t'" if "?P t" "constrainedExtend_body mp po target t = Return k t'" for t k t'
      using that(1) constrainedExtend_body_randseed(2) [OF that(2)] by simp
    show "?P t" if "?P t" for t :: "('q, 'r) extendState"
      using that .
  qed
  with l assms show ?thesis
    by (simp add: constrainedExtend_def)
qed

text \<open>
  C7 (as amended). In a \<^verbatim>\<open>tryExtend\<close> that the context does not cancel and whose nearest
  neighbours are nodes, the generator of the extension on \<^verbatim>\<open>map1\<close> is seeded with the
  first number drawn from the planner's generator and the one of the extension on
  \<^verbatim>\<open>map2\<close> with the second; both numbers are drawn before the first extension starts, and
  the extensions leave the planner's generator alone: after the call it has advanced by
  exactly these two numbers. The result of a run is a function of the master seed, the
  options and the collaborators, among them the order in which a \<^verbatim>\<open>range\<close> loop visits
  the start tree.
\<close>

theorem tryExtend_child_seeds:
  fixes mp :: "('q, 'v, 'r) planner"
  assumes "\<not> ctxDone mp (polls (wld_r s))"
    and "nearestNeighbor mp target (map1_r s) = Some n1"
    and "nearestNeighbor mp target (map2_r s) = Some n2"
  shows "\<exists>a m1 x1 w1 b m2 x2 w2.
      constrainedExtend mp po (randNew mp (fst (randInt mp (randseed (wld_r s))))) (map1_r s) n1
          target
          ((tick (wld_r s))\<lparr>randseed := snd (randInt mp (snd (randInt mp (randseed (wld_r s)))))\<rparr>)
        = (a, m1, x1, w1) \<and>
      constrainedExtend mp po
          (randNew mp (fst (randInt mp (snd (randInt mp (randseed (wld_r s)))))))
          (map2_r s) n2 target w1
        = (b, m2, x2, w2) \<and>
      fst (tryExtend mp po target s) = Reached a b \<and>
      randseed (wld_r (snd (tryExtend mp po target s)))
        = snd (randInt mp (snd (randInt mp (randseed (wld_r s)))))"
proof -
  let ?g0 = "randseed (wld_r s)"
  let ?g2 = "snd (randInt mp (snd (randInt mp ?g0)))"
  let ?w = "(tick (wld_r s))\<lparr>randseed := ?g2\<rparr>"
  obtain a m1 x1 w1 where
    e1: "constrainedExtend mp po (randNew mp (fst (randInt mp ?g0))) (map1_r s) n1 target ?w
           = (a, m1, x1, w1)"
    by (cases "constrainedExtend mp po (randNew mp (fst (randInt mp ?g0))) (map1_r s) n1 target ?w")
  obtain b m2 x2 w2 where
    e2: "constrainedExtend mp po (randNew mp (fst (randInt mp (snd (randInt mp ?g0)))))
           (map2_r s) n2 target w1 = (b, m2, x2, w2)"
    by (cases "constrainedExtend mp po (randNew mp (fst (randInt mp (snd (randInt mp ?g0)))))
           (map2_r s) n2 target w1")
  have r: "randseed w2 = ?g2"
    using constrainedExtend_randseed [OF e1] constrainedExtend_randseed [OF e2] by simp
  have t: "tryExtend mp po target s
             = (Reached a b, (setMaps m1 m2 s)\<lparr>wld_r := SetCorner b True (SetCorner a True w2)\<rparr>)"
    using assms e1 e2
    by (simp add: tryExtend_def Let_def case_prod_beta tick_def)
  from r have "randseed (wld_r (snd (tryExtend mp po target s))) = ?g2"
    unfolding t by (simp add: SetCorner_def)
  with e1 e2 t show ?thesis
    by auto
qed


theorem tryExtend_child_seeds_witness:
  "fst (tryExtend linePlanner lineOptions (Node 2 (1 / 40)) (runStart (1 / 20) (1 / 40)))
     = Reached (Node 0 0) (Node 1 (1 / 20)) \<and>
   randseed (wld_r (snd (tryExtend linePlanner lineOptions (Node 2 (1 / 40))
                           (runStart (1 / 20) (1 / 40))))) = 2"
proof -
  define s :: "(real, nat) runState" where "s = runStart (1 / 20) (1 / 40)"
  have h1: "\<not> ctxDone linePlanner (polls (wld_r s))"
    by (simp add: linePlanner_def)
  have h2: "nearestNeighbor linePlanner (Node 2 (1 / 40)) (map1_r s) = Some (Node 0 0)"
    by (simp add: s_def rrt_simps line_simps)
  have h3: "nearestNeighbor linePlanner (Node 2 (1 / 40)) (map2_r s) = Some (Node 1 (1 / 20))"
    by (simp add: s_def rrt_simps line_simps)
  from tryExtend_child_seeds [OF h1 h2 h3, of lineOptions] obtain a m1 x1 w1 b m2 x2 w2 where
    e1: "constrainedExtend linePlanner lineOptions
           (randNew linePlanner (fst (randInt linePlanner (randseed (wld_r s))))) (map1_r s)
           (Node 0 0) (Node 2 (1 / 40))
           ((tick (wld_r s))\<lparr>randseed := snd (randInt linePlanner
                                             (snd (randInt linePlanner (randseed (wld_r s)))))\<rparr>)
         = (a, m1, x1, w1)"
    and e2: "constrainedExtend linePlanner lineOptions
           (randNew linePlanner (fst (randInt linePlanner
                                        (snd (randInt linePlanner (randseed (wld_r s)))))))
           (map2_r s) (Node 1 (1 / 20)) (Node 2 (1 / 40)) w1
         = (b, m2, x2, w2)"
    and f: "fst (tryExtend linePlanner lineOptions (Node 2 (1 / 40)) s) = Reached a b"
    and g: "randseed (wld_r (snd (tryExtend linePlanner lineOptions (Node 2 (1 / 40)) s)))
         = snd (randInt linePlanner (snd (randInt linePlanner (randseed (wld_r s)))))"
    by (elim exE conjE)
  from e1 have a: "a = Node 0 0"
    by (simp add: s_def rrt_simps run_simps line_simps)
  have near: "configurationDistanceFunc linePlanner (Q (Node 1 (1 / 20))) (Q (Node 2 (1 / 40)))
                < InputIdentDist lineOptions"
    by (simp add: line_simps)
  from e2 [unfolded constrainedExtend_reached [OF near]] have b: "b = Node 1 (1 / 20)"
    by simp
  have "snd (randInt linePlanner (snd (randInt linePlanner (randseed (wld_r s))))) = 2"
    by (simp add: s_def rrt_simps line_simps)
  with f g a b show ?thesis
    by (simp add: s_def)
qed

text \<open>
  C7 as stated fails: two runs with the same master seed, options and constraint handler,
  on the same trees, in which the \<^verbatim>\<open>range\<close> loop over the start tree meets the root at 0
  first in the one and the root at 2 first in the other, start from the targets 5 and 6
  and return different paths.
\<close>

theorem rrtBackgroundRunner_order_counterexample:
  "(case fst (rrtBackgroundRunner orderA twoRoots world3) of
      Some sol \<Rightarrow> steps sol | None \<Rightarrow> None)
     = Some [Node 1 2, Node 4 5, Node 5 6, Node 2 10] \<and>
   (case fst (rrtBackgroundRunner (orderA\<lparr>rangeMap := (\<lambda>m. [Node 1 2, Node 0 0])\<rparr>) twoRoots world3) of
      Some sol \<Rightarrow> steps sol | None \<Rightarrow> None)
     = Some [Node 1 2, Node 4 6, Node 2 10]"
  by (simp add: rrtBackgroundRunner_def rrt_loop.simps rrt_simps run_simps orderA_def twoRoots_def
      line_simps eval_nat_numeral)

end
